theory Spec2Isabelle
  imports Complex_Main
begin

section \<open>Data model\<close>

text \<open>
  The generator (\<^verbatim>\<open>csv_to_opentrons_generator.py\<close>) works on a pandas table. A cell of the
  table is a number (a finite float or an integer, kept as the real number it denotes: the
  code only compares cells with \<open>0\<close> and \<open>20\<close> and sorts them, and comparison is exact), a
  missing value (\<open>NaN\<close>), or a text (\<open>Str\<close>, the cells of an \<^verbatim>\<open>object\<close> column).

  A row carries its index label and its cells by column name. A table is the list of its
  column names, in file order, and the list of its rows. Column names are ASCII texts.
\<close>

datatype cell = Num real | NaN | Str string

type_synonym row = "nat \<times> (string \<Rightarrow> cell)"

record dataframe =
  df_columns :: "string list"
  df_rows :: "row list"

definition len :: "dataframe \<Rightarrow> nat" where
  "len df = length (df_rows df)"

text \<open>The exceptions the Python raises, as values.\<close>

datatype error = ValueError | TypeError | KeyError | IndexError

text \<open>Where a generated program goes: \<^verbatim>\<open>OUTPUT_FILE_PATH\<close> itself, or the file of segment \<open>k\<close>.\<close>

datatype out_path = Output_File | Segment_File nat

text \<open>The lines the program prints, one constructor per \<^verbatim>\<open>print\<close> of the source.\<close>

datatype msg =
    Warning_No_Water
  | Filtered_Wells nat
  | Remaining_Wells nat
  | Segment_Wells nat nat
  | Identified_Columns "(string \<times> string) list"
  | Processing_CSV
  | CSV_Loaded nat
  | CSV_Columns "string list"
  | CSV_Read_Error
  | Generating_Segment nat nat nat out_path
  | Segment_Saved nat
  | Segment_Write_Error nat
  | Banner
  | Input_CSV
  | Output_Base
  | CSV_Not_Found
  | Please_Update_Path
  | Generation_Completed
  | Generated_Files nat
  | File_Listed nat out_path
  | Summary_Header
  | Total_Segments nat
  | Max_Wells_Per_File
  | Ready_For_Execution
  | Failed_To_Generate

section \<open>Text operations\<close>

text \<open>\<^verbatim>\<open>str.lower()\<close> on ASCII: the 26 capital letters are mapped, every other character stays.\<close>

definition lower_char :: "char \<Rightarrow> char" where
  "lower_char c =
     (case map_of (zip ''ABCDEFGHIJKLMNOPQRSTUVWXYZ'' ''abcdefghijklmnopqrstuvwxyz'') c of
        Some d \<Rightarrow> d
      | None \<Rightarrow> c)"

definition lower :: "string \<Rightarrow> string" where
  "lower s = map lower_char s"

fun starts_with :: "string \<Rightarrow> string \<Rightarrow> bool" where
  "starts_with [] s = True"
| "starts_with (p # ps) [] = False"
| "starts_with (p # ps) (c # cs) = (p = c \<and> starts_with ps cs)"

text \<open>\<^verbatim>\<open>p in s\<close> on texts: \<open>p\<close> occurs in \<open>s\<close> as a contiguous piece.\<close>

fun str_in :: "string \<Rightarrow> string \<Rightarrow> bool" where
  "str_in p [] = (p = [])"
| "str_in p (c # cs) = (starts_with p (c # cs) \<or> str_in p cs)"

text \<open>\<^verbatim>\<open>any(x in col.lower() for x in tokens)\<close>.\<close>

definition any_in_lower :: "string list \<Rightarrow> string \<Rightarrow> bool" where
  "any_in_lower tokens col = list_ex (\<lambda>x. str_in x (lower col)) tokens"

text \<open>The decimal text of a natural number, as an f-string prints it.\<close>

function str_nat :: "nat \<Rightarrow> string" where
  "str_nat n =
     (if n < 10 then [''0123456789'' ! n]
      else str_nat (n div 10) @ [''0123456789'' ! (n mod 10)])"
  by pat_completeness auto
termination
  by (relation "measure id") auto

declare str_nat.simps [simp del]

section \<open>Batcher: \<^verbatim>\<open>segment_data\<close>\<close>

text \<open>\<^verbatim>\<open>range(i, stop, step)\<close> for a positive step.\<close>

function py_range :: "nat \<Rightarrow> nat \<Rightarrow> nat \<Rightarrow> nat list" where
  "py_range i stop step =
     (if step = 0 \<or> stop \<le> i then [] else i # py_range (i + step) stop step)"
  by pat_completeness auto
termination
  by (relation "measure (\<lambda>(i, stop, step). stop - i)") auto

declare py_range.simps [simp del]

text \<open>\<^verbatim>\<open>df.iloc[i:j]\<close> for \<open>0 \<le> i \<le> j\<close>: the rows at positions \<open>i..j-1\<close>, labels and columns kept.\<close>

definition iloc :: "dataframe \<Rightarrow> nat \<Rightarrow> nat \<Rightarrow> dataframe" where
  "iloc df i j = df\<lparr>df_rows := take (j - i) (drop i (df_rows df))\<rparr>"

text \<open>
  The loop of \<^verbatim>\<open>segment_data\<close>: each round slices a segment, appends it, and prints its
  number and size.
\<close>

fun segment_loop ::
  "dataframe \<Rightarrow> nat \<Rightarrow> nat list \<Rightarrow> dataframe list \<Rightarrow> msg list \<Rightarrow> msg list \<times> dataframe list" where
  "segment_loop df max_wells [] segments out = (out, segments)"
| "segment_loop df max_wells (i # rest) segments out =
     (let segment = iloc df i (i + max_wells);
          segments' = segments @ [segment]
      in segment_loop df max_wells rest segments'
           (out @ [Segment_Wells (length segments') (len segment)]))"

text \<open>
  \<^verbatim>\<open>segment_data(df, max_wells)\<close>. \<^verbatim>\<open>range\<close> raises \<^verbatim>\<open>ValueError\<close> for a step of zero and is
  empty for a negative step.
\<close>

definition segment_data :: "dataframe \<Rightarrow> int \<Rightarrow> error + msg list \<times> dataframe list" where
  "segment_data df max_wells =
     (let total_rows = len df in
      if max_wells = 0 then Inl ValueError
      else if max_wells < 0 then Inr ([], [])
      else Inr (segment_loop df (nat max_wells) (py_range 0 total_rows (nat max_wells)) [] []))"

section \<open>Row Validator: \<^verbatim>\<open>filter_valid_wells\<close>\<close>

text \<open>\<^verbatim>\<open>df[col]\<close>: the cells of a column, in row order.\<close>

definition column_values :: "dataframe \<Rightarrow> string \<Rightarrow> cell list" where
  "column_values df col = map (\<lambda>r. snd r col) (df_rows df)"

text \<open>
  Running a fallible step over a list, stopping at the first exception: a comprehension
  or an element-wise operation whose element step may raise.
\<close>

fun collect :: "('a \<Rightarrow> error + 'b) \<Rightarrow> 'a list \<Rightarrow> error + 'b list" where
  "collect f [] = Inr []"
| "collect f (x # xs) =
     (case f x of
        Inl e \<Rightarrow> Inl e
      | Inr y \<Rightarrow> (case collect f xs of Inl e \<Rightarrow> Inl e | Inr ys \<Rightarrow> Inr (y # ys)))"

text \<open>
  \<^verbatim>\<open>cell > 0\<close>, as pandas evaluates it element-wise: a number is compared, a missing
  value compares false, and a text against an integer raises \<^verbatim>\<open>TypeError\<close>.
\<close>

fun gt_zero :: "cell \<Rightarrow> error + bool" where
  "gt_zero (Num v) = Inr (0 < v)"
| "gt_zero NaN = Inr False"
| "gt_zero (Str s) = Inl TypeError"

text \<open>\<^verbatim>\<open>df[mask]\<close>: the rows whose mask entry is true, labels kept.\<close>

definition boolean_index :: "dataframe \<Rightarrow> bool list \<Rightarrow> dataframe" where
  "boolean_index df keep = df\<lparr>df_rows := map fst (filter snd (zip (df_rows df) keep))\<rparr>"

definition filter_valid_wells :: "dataframe \<Rightarrow> error + msg list \<times> dataframe" where
  "filter_valid_wells df =
     (case filter (\<lambda>col. str_in ''water'' (lower col)) (df_columns df) of
        [] \<Rightarrow> Inr ([Warning_No_Water], df)
      | water_col # _ \<Rightarrow>
          (let initial_count = len df in
           case collect gt_zero (column_values df water_col) of
             Inl e \<Rightarrow> Inl e
           | Inr keep \<Rightarrow>
               (let df_filtered = boolean_index df keep;
                    filtered_count = len df_filtered
                in Inr ([Filtered_Wells (initial_count - filtered_count),
                         Remaining_Wells filtered_count], df_filtered))))"

section \<open>Well Assigner: \<^verbatim>\<open>get_well_positions\<close>\<close>

definition grid_rows :: "char list" where
  "grid_rows = ''ABCDEFGH''"

definition grid_cols :: "nat list" where
  "grid_cols = [1..<13]"

text \<open>
  The loop that synthesizes positions: \<open>well_idx\<close> is the cursor, advanced once per row; a
  row within the grid gets its letter and number, a row past it gets \<^verbatim>\<open>X\<close> and the cursor.
\<close>

fun well_loop :: "nat \<Rightarrow> row list \<Rightarrow> cell list" where
  "well_loop well_idx [] = []"
| "well_loop well_idx (r # rest) =
     (if well_idx < length grid_rows * length grid_cols
      then (let row_idx = well_idx div length grid_cols;
                col_idx = well_idx mod length grid_cols + 1
            in Str (grid_rows ! row_idx # str_nat col_idx) # well_loop (well_idx + 1) rest)
      else Str (CHR ''X'' # str_nat well_idx) # well_loop (well_idx + 1) rest)"

definition position_cols :: "dataframe \<Rightarrow> string list" where
  "position_cols df = filter (any_in_lower [''well'', ''position'', ''pos'']) (df_columns df)"

definition get_well_positions :: "dataframe \<Rightarrow> cell list" where
  "get_well_positions df =
     (case position_cols df of
        col # _ \<Rightarrow> column_values df col
      | [] \<Rightarrow> well_loop 0 (df_rows df))"

section \<open>Column Classifier: \<^verbatim>\<open>identify_columns\<close>\<close>

text \<open>A Python \<^verbatim>\<open>dict\<close>, in insertion order; \<^verbatim>\<open>d[k] = v\<close> replaces or appends.\<close>

fun dict_set :: "('k \<times> 'v) list \<Rightarrow> 'k \<Rightarrow> 'v \<Rightarrow> ('k \<times> 'v) list" where
  "dict_set [] k v = [(k, v)]"
| "dict_set ((k', v') # d) k v = (if k' = k then (k, v) # d else (k', v') # dict_set d k v)"

definition patterns :: "(string \<times> string list) list" where
  "patterns =
     [(''glycine'', [''gly'', ''2.4m'', ''glycine'']),
      (''nacl'', [''nacl'', ''5m'', ''salt'']),
      (''tris'', [''tris'', ''buffer'', ''0.5m'']),
      (''water'', [''water'', ''h2o''])]"

text \<open>The inner loop: the first column that matches, where the loop breaks.\<close>

fun first_match :: "string list \<Rightarrow> string list \<Rightarrow> string option" where
  "first_match pattern_list [] = None"
| "first_match pattern_list (col # cols) =
     (if any_in_lower pattern_list col then Some col else first_match pattern_list cols)"

fun identify_loop ::
  "(string \<times> string list) list \<Rightarrow> string list \<Rightarrow> (string \<times> string) list \<Rightarrow> (string \<times> string) list" where
  "identify_loop [] cols columns = columns"
| "identify_loop ((liquid, pattern_list) # rest) cols columns =
     (case first_match pattern_list cols of
        None \<Rightarrow> identify_loop rest cols columns
      | Some col \<Rightarrow> identify_loop rest cols (dict_set columns liquid col))"

definition identify_columns :: "dataframe \<Rightarrow> msg list \<times> (string \<times> string) list" where
  "identify_columns df =
     (let columns = identify_loop patterns (df_columns df) []
      in ([Identified_Columns columns], columns))"

section \<open>Instrument Router: \<^verbatim>\<open>select_pipette\<close>\<close>

definition select_pipette :: "real \<Rightarrow> string \<times> string" where
  "select_pipette vol =
     (if vol \<le> 20 then (''pipette_right'', ''p20_single_gen2'')
      else (''pipette_left'', ''p300_single_gen2''))"

section \<open>Transfer Grouper: \<^verbatim>\<open>group_by_reagent_and_volume\<close>\<close>

record liquid =
  name :: string
  description :: string
  color :: string
  tube_position :: string

definition LIQUID_DEFINITIONS :: "(string \<times> liquid) list" where
  "LIQUID_DEFINITIONS =
     [(''glycine'', \<lparr>name = ''2.4M Glycine'', description = ''in water'',
                     color = ''#b925ff'', tube_position = ''A1''\<rparr>),
      (''nacl'', \<lparr>name = ''5M NaCl'', description = ''in water'',
                  color = ''#ffd600'', tube_position = ''A2''\<rparr>),
      (''tris'', \<lparr>name = ''500mM Tris buffer'', description = ''in water'',
                  color = ''#7eff42ff'', tube_position = ''B1''\<rparr>),
      (''water'', \<lparr>name = ''water'', description = '''',
                   color = ''#50d5ffff'', tube_position = ''B2''\<rparr>)]"

record transfer =
  reagent :: string
  volume :: real
  source_tube :: string
  wells :: "cell list"
  count :: nat

definition reagent_order :: "string list" where
  "reagent_order = [''tris'', ''nacl'', ''glycine'', ''water'']"

text \<open>
  \<^verbatim>\<open>df.groupby(col)\<close> keeps one group per distinct value of the column, drops the missing
  values, and yields the groups in sorted key order: the numbers ascending, then the
  texts. The first text key reached raises (see \<open>volume_loop\<close>), so the order among the
  texts has no effect and is left as the order of first occurrence.
\<close>

fun numbers :: "cell list \<Rightarrow> real list" where
  "numbers [] = []"
| "numbers (Num v # cs) = v # numbers cs"
| "numbers (c # cs) = numbers cs"

fun texts :: "cell list \<Rightarrow> string list" where
  "texts [] = []"
| "texts (Str s # cs) = s # texts cs"
| "texts (c # cs) = texts cs"

definition group_keys :: "cell list \<Rightarrow> cell list" where
  "group_keys cs = map Num (sort (remdups (numbers cs))) @ map Str (remdups (texts cs))"

text \<open>\<^verbatim>\<open>group.index\<close>: the labels of the rows of the group of a key, in table order.\<close>

definition group_index :: "dataframe \<Rightarrow> string \<Rightarrow> cell \<Rightarrow> nat list" where
  "group_index df col k = map fst (filter (\<lambda>r. snd r col = k) (df_rows df))"

text \<open>\<^verbatim>\<open>xs[i]\<close> for \<open>i \<ge> 0\<close>: out of range raises \<^verbatim>\<open>IndexError\<close>.\<close>

definition py_index :: "'a list \<Rightarrow> nat \<Rightarrow> error + 'a" where
  "py_index xs i = (if i < length xs then Inr (xs ! i) else Inl IndexError)"

text \<open>
  The loop over the groups of one reagent. \<^verbatim>\<open>volume <= 0\<close> raises \<^verbatim>\<open>TypeError\<close> on a text
  key; a missing value is never a key.
\<close>

fun volume_loop ::
  "string \<Rightarrow> string \<Rightarrow> dataframe \<Rightarrow> string \<Rightarrow> cell list \<Rightarrow> cell list \<Rightarrow> transfer list
     \<Rightarrow> error + transfer list" where
  "volume_loop r tube df col_name well_positions [] transfers = Inr transfers"
| "volume_loop r tube df col_name well_positions (Num vol # ks) transfers =
     (if vol \<le> 0 then volume_loop r tube df col_name well_positions ks transfers
      else
        (case collect (py_index well_positions) (group_index df col_name (Num vol)) of
           Inl e \<Rightarrow> Inl e
         | Inr ws \<Rightarrow>
             volume_loop r tube df col_name well_positions ks
               (transfers @ [\<lparr>reagent = r, volume = vol, source_tube = tube,
                              wells = ws, count = length ws\<rparr>])))"
| "volume_loop r tube df col_name well_positions (k # ks) transfers = Inl TypeError"

text \<open>
  The loop over \<^verbatim>\<open>reagent_order\<close>. A reagent with no bound column is skipped; looking up a
  reagent with no liquid definition, or grouping by a column the table does not have,
  raises \<^verbatim>\<open>KeyError\<close>.
\<close>

fun reagent_loop ::
  "dataframe \<Rightarrow> (string \<times> string) list \<Rightarrow> cell list \<Rightarrow> string list \<Rightarrow> transfer list
     \<Rightarrow> error + transfer list" where
  "reagent_loop df columns well_positions [] transfers = Inr transfers"
| "reagent_loop df columns well_positions (r # rest) transfers =
     (case map_of columns r of
        None \<Rightarrow> reagent_loop df columns well_positions rest transfers
      | Some col_name \<Rightarrow>
          (case map_of LIQUID_DEFINITIONS r of
             None \<Rightarrow> Inl KeyError
           | Some l \<Rightarrow>
               if col_name \<notin> set (df_columns df) then Inl KeyError
               else
                 (case volume_loop r (tube_position l) df col_name well_positions
                         (group_keys (column_values df col_name)) transfers of
                    Inl e \<Rightarrow> Inl e
                  | Inr transfers' \<Rightarrow> reagent_loop df columns well_positions rest transfers')))"

definition group_by_reagent_and_volume ::
  "dataframe \<Rightarrow> (string \<times> string) list \<Rightarrow> cell list \<Rightarrow> error + transfer list" where
  "group_by_reagent_and_volume df columns well_positions =
     reagent_loop df columns well_positions reagent_order []"

section \<open>Steps of one segment\<close>

text \<open>
  \<^verbatim>\<open>generate_transfer_step\<close> renders one transfer as program text. The model keeps what the
  text is built from: the step number, the pipette chosen by \<^verbatim>\<open>select_pipette\<close>, the
  volume, the source list (the tube once, and once more per further destination) and the
  destination list. The liquid-class block is template text fixed by the step number, the
  pipette type and the volume, and is not modelled.
\<close>

record step =
  step_num :: nat
  pipette :: string
  pipette_type :: string
  step_volume :: real
  source :: "string list"
  dest :: "cell list"

definition generate_transfer_step ::
  "nat \<Rightarrow> real \<Rightarrow> string \<Rightarrow> cell list \<Rightarrow> string \<Rightarrow> (string \<times> string) list \<Rightarrow> step" where
  "generate_transfer_step n vol tube dest_wells liquid_name columns =
     (case select_pipette vol of
        (p, ptype) \<Rightarrow>
          \<lparr>step_num = n, pipette = p, pipette_type = ptype, step_volume = vol,
            source = tube # replicate (length dest_wells - 1) tube, dest = dest_wells\<rparr>)"

fun steps_loop ::
  "(string \<times> string) list \<Rightarrow> transfer list \<Rightarrow> nat \<Rightarrow> step list \<Rightarrow> step list" where
  "steps_loop columns [] step_counter acc = acc"
| "steps_loop columns (t # ts) step_counter acc =
     (if count t > 0
      then steps_loop columns ts (step_counter + 1)
             (acc @ [generate_transfer_step step_counter (volume t) (source_tube t) (wells t)
                       (reagent t) columns])
      else steps_loop columns ts step_counter acc)"

text \<open>\<^verbatim>\<open>df.reset_index(drop=True)\<close>: the rows relabelled \<open>0, 1, 2, \<dots>\<close>.\<close>

definition reset_index :: "dataframe \<Rightarrow> dataframe" where
  "reset_index df = df\<lparr>df_rows := zip [0..<len df] (map snd (df_rows df))\<rparr>"

definition generate_protocol_steps_for_segment ::
  "dataframe \<Rightarrow> (string \<times> string) list \<Rightarrow> nat \<Rightarrow> error + step list" where
  "generate_protocol_steps_for_segment df_segment columns segment_idx =
     (let well_positions = get_well_positions df_segment;
          df_segment' = reset_index df_segment
      in case group_by_reagent_and_volume df_segment' columns well_positions of
           Inl e \<Rightarrow> Inl e
         | Inr transfers \<Rightarrow> Inr (steps_loop columns transfers 1 []))"

section \<open>The whole run: \<^verbatim>\<open>generate_full_protocol\<close> and \<^verbatim>\<open>main\<close>\<close>

text \<open>
  What a run takes from outside the program: the clock read for the header of segment
  \<open>k\<close>, and whether writing a file succeeds. The output directory is taken to exist. The
  table read from the CSV file is an argument of its own: \<open>None\<close> when \<^verbatim>\<open>pd.read_csv\<close>
  raised.
\<close>

record env =
  clock :: "nat \<Rightarrow> string"
  write_ok :: "out_path \<Rightarrow> bool"

text \<open>
  A generated program: the header's segment number, segment count, row count and
  timestamp, and the steps. The labware and liquid sections are constant text.
\<close>

record protocol_code =
  segment_num :: nat
  total_segments :: nat
  wells_in_segment :: nat
  created :: string
  steps :: "step list"

text \<open>
  What a run leaves: the lines printed, the writes attempted (path, content, and whether
  the write succeeded), and the value returned (\<open>None\<close> is Python's \<^verbatim>\<open>None\<close>).
\<close>

record outcome =
  printed :: "msg list"
  writes :: "(out_path \<times> protocol_code \<times> bool) list"
  returned :: "out_path list option"

definition read_csv_data :: "dataframe option \<Rightarrow> msg list \<times> dataframe option" where
  "read_csv_data parsed =
     (case parsed of
        Some df \<Rightarrow> ([CSV_Loaded (len df), CSV_Columns (df_columns df)], Some df)
      | None \<Rightarrow> ([CSV_Read_Error], None))"

fun segment_files_loop ::
  "env \<Rightarrow> (string \<times> string) list \<Rightarrow> nat \<Rightarrow> (nat \<times> dataframe) list
     \<Rightarrow> msg list \<Rightarrow> (out_path \<times> protocol_code \<times> bool) list \<Rightarrow> out_path list
     \<Rightarrow> error + msg list \<times> (out_path \<times> protocol_code \<times> bool) list \<times> out_path list" where
  "segment_files_loop e columns total_segs [] out ws generated_files = Inr (out, ws, generated_files)"
| "segment_files_loop e columns total_segs ((segment_idx, df_segment) # rest) out ws generated_files =
     (let num = segment_idx + 1;
          n = len df_segment;
          segment_file_path = (if total_segs > 1 then Segment_File num else Output_File);
          out' = out @ [Generating_Segment num total_segs n segment_file_path]
      in case generate_protocol_steps_for_segment df_segment columns segment_idx of
           Inl err \<Rightarrow> Inl err
         | Inr st \<Rightarrow>
             (let code = \<lparr>segment_num = num, total_segments = total_segs, wells_in_segment = n,
                          created = clock e num, steps = st\<rparr>
              in if write_ok e segment_file_path
                 then segment_files_loop e columns total_segs rest (out' @ [Segment_Saved num])
                        (ws @ [(segment_file_path, code, True)])
                        (generated_files @ [segment_file_path])
                 else segment_files_loop e columns total_segs rest (out' @ [Segment_Write_Error num])
                        (ws @ [(segment_file_path, code, False)]) generated_files))"

definition generate_full_protocol :: "env \<Rightarrow> dataframe option \<Rightarrow> error + outcome" where
  "generate_full_protocol e parsed =
     (case read_csv_data parsed of
        (out0, None) \<Rightarrow> Inr \<lparr>printed = Processing_CSV # out0, writes = [], returned = None\<rparr>
      | (out0, Some df) \<Rightarrow>
          (case filter_valid_wells df of
             Inl err \<Rightarrow> Inl err
           | Inr (out1, df_filtered) \<Rightarrow>
               (case identify_columns df_filtered of
                  (out2, columns) \<Rightarrow>
                    (case segment_data df_filtered 28 of
                       Inl err \<Rightarrow> Inl err
                     | Inr (out3, segments) \<Rightarrow>
                         (case segment_files_loop e columns (length segments)
                                 (enumerate 0 segments)
                                 (Processing_CSV # out0 @ out1 @ out2 @ out3) [] [] of
                            Inl err \<Rightarrow> Inl err
                          | Inr (out4, ws, generated_files) \<Rightarrow>
                              Inr \<lparr>printed = out4, writes = ws,
                                   returned = Some generated_files\<rparr>)))))"

text \<open>
  \<^verbatim>\<open>main\<close>. \<^verbatim>\<open>if generated_files:\<close> takes the failure branch for \<^verbatim>\<open>None\<close> and for the empty
  list alike. The count of lines that the success branch reads back from each file is not
  modelled.
\<close>

definition main :: "env \<Rightarrow> bool \<Rightarrow> dataframe option \<Rightarrow> error + outcome" where
  "main e csv_exists parsed =
     (if \<not> csv_exists
      then Inr \<lparr>printed = [Banner, Input_CSV, Output_Base, CSV_Not_Found, Please_Update_Path],
                writes = [], returned = None\<rparr>
      else
        (case generate_full_protocol e parsed of
           Inl err \<Rightarrow> Inl err
         | Inr res \<Rightarrow>
             (case returned res of
                Some (f # fs) \<Rightarrow>
                  Inr \<lparr>printed = [Banner, Input_CSV, Output_Base] @ printed res
                         @ [Generation_Completed, Generated_Files (length (f # fs))]
                         @ map (\<lambda>(i, file_path). File_Listed i file_path) (enumerate 1 (f # fs))
                         @ [Summary_Header, Total_Segments (length (f # fs)),
                            Max_Wells_Per_File, Ready_For_Execution],
                       writes = writes res, returned = None\<rparr>
              | _ \<Rightarrow>
                  Inr \<lparr>printed = [Banner, Input_CSV, Output_Base] @ printed res
                         @ [Failed_To_Generate],
                       writes = writes res, returned = None\<rparr>)))"

section \<open>Vocabulary of the properties\<close>

text \<open>A text occurs in another: some text before it, some text after it.\<close>

definition occurs_in :: "string \<Rightarrow> string \<Rightarrow> bool" where
  "occurs_in tok s = (\<exists>a b. s = a @ tok @ b)"

text \<open>A column name matches a token list: its lowercased form contains one of the tokens.\<close>

definition name_matches :: "string list \<Rightarrow> string \<Rightarrow> bool" where
  "name_matches toks col = (\<exists>tok \<in> set toks. occurs_in tok (lower col))"

fun is_positive :: "cell \<Rightarrow> bool" where
  "is_positive (Num v) = (0 < v)"
| "is_positive c = False"

fun is_text :: "cell \<Rightarrow> bool" where
  "is_text (Str s) = True"
| "is_text c = False"

text \<open>
  The position of slot \<open>k\<close> of the 8 by 12 grid in row-major order, and the label of a
  slot past the grid.
\<close>

definition grid_position :: "nat \<Rightarrow> string" where
  "grid_position k =
     (if k < 96 then ''ABCDEFGH'' ! (k div 12) # str_nat (k mod 12 + 1)
      else CHR ''X'' # str_nat k)"

text \<open>A row given by its label and the cells it has; every other cell is missing.\<close>

definition mk_row :: "nat \<Rightarrow> (string \<times> cell) list \<Rightarrow> row" where
  "mk_row i kvs = (i, \<lambda>c. case map_of kvs c of Some v \<Rightarrow> v | None \<Rightarrow> NaN)"

text \<open>
  The rows that contribute to a transfer: the rows whose cell in the column bound to the
  transfer's reagent is the transfer's volume.
\<close>

definition contributing :: "dataframe \<Rightarrow> (string \<times> string) list \<Rightarrow> transfer \<Rightarrow> row list" where
  "contributing df columns t =
     filter (\<lambda>row. map_option (snd row) (map_of columns (reagent t)) = Some (Num (volume t)))
       (df_rows df)"

text \<open>
  The transfers of one reagent, in closed form: one per distinct positive number of the
  bound column, ascending.
\<close>

definition requests_of ::
  "dataframe \<Rightarrow> (string \<times> string) list \<Rightarrow> cell list \<Rightarrow> string \<Rightarrow> transfer list" where
  "requests_of df columns well_positions r =
     (case map_of columns r of
        None \<Rightarrow> []
      | Some col \<Rightarrow>
          (case map_of LIQUID_DEFINITIONS r of
             None \<Rightarrow> []
           | Some l \<Rightarrow>
               map (\<lambda>v. \<lparr>reagent = r, volume = v, source_tube = tube_position l,
                          wells = map (nth well_positions) (group_index df col (Num v)),
                          count = length (group_index df col (Num v))\<rparr>)
                 (filter (\<lambda>v. 0 < v) (sort (remdups (numbers (column_values df col)))))))"

text \<open>
  An example: the second segment of a table (labels from 28), with a buffer column and a
  glycine column, the binding \<^verbatim>\<open>identify_columns\<close> finds for it, and the transfers expected
  of it. The last row has no glycine value.
\<close>

definition example_segment :: dataframe where
  "example_segment =
     \<lparr>df_columns = [''Tris_buffer'', ''Gly_2.4M''],
      df_rows = [mk_row 28 [(''Tris_buffer'', Num 2), (''Gly_2.4M'', Num 5)],
                 mk_row 29 [(''Tris_buffer'', Num 2), (''Gly_2.4M'', Num 10)],
                 mk_row 30 [(''Tris_buffer'', Num 0), (''Gly_2.4M'', Num 5)],
                 mk_row 31 [(''Tris_buffer'', Num 30)]]\<rparr>"

definition example_columns :: "(string \<times> string) list" where
  "example_columns = [(''glycine'', ''Gly_2.4M''), (''tris'', ''Tris_buffer'')]"

definition example_transfers :: "transfer list" where
  "example_transfers =
     [\<lparr>reagent = ''tris'', volume = 2, source_tube = ''B1'',
       wells = [Str ''A1'', Str ''A2''], count = 2\<rparr>,
      \<lparr>reagent = ''tris'', volume = 30, source_tube = ''B1'',
       wells = [Str ''A4''], count = 1\<rparr>,
      \<lparr>reagent = ''glycine'', volume = 5, source_tube = ''A1'',
       wells = [Str ''A1'', Str ''A3''], count = 2\<rparr>,
      \<lparr>reagent = ''glycine'', volume = 10, source_tube = ''A1'',
       wells = [Str ''A2''], count = 1\<rparr>]"

text \<open>
  The routed transfer requests of a run: for each program handed to the writer, its steps
  (each a transfer with its pipette); or the exception that ended the run.
\<close>

definition routed_requests :: "error + outcome \<Rightarrow> error + step list list" where
  "routed_requests x =
     (case x of
        Inl err \<Rightarrow> Inl err
      | Inr res \<Rightarrow> Inr (map (\<lambda>(file_path, code, ok). steps code) (writes res)))"

text \<open>
  An example table of four rows, the second with no water left, and two environments
  that differ in the clock and in whether the write succeeds.
\<close>

definition example_table :: dataframe where
  "example_table =
     \<lparr>df_columns = [''Tris_buffer'', ''Gly_2.4M'', ''Water''],
      df_rows = [mk_row 0 [(''Tris_buffer'', Num 2), (''Gly_2.4M'', Num 5), (''Water'', Num 100)],
                 mk_row 1 [(''Tris_buffer'', Num 2), (''Gly_2.4M'', Num 10), (''Water'', Num 0)],
                 mk_row 2 [(''Tris_buffer'', Num 0), (''Gly_2.4M'', Num 5), (''Water'', Num 50)],
                 mk_row 3 [(''Tris_buffer'', Num 30), (''Water'', Num 20)]]\<rparr>"

definition example_env :: env where
  "example_env = \<lparr>clock = (\<lambda>k. ''2025-01-01T09:00:00''), write_ok = (\<lambda>p. True)\<rparr>"

definition example_env' :: env where
  "example_env' = \<lparr>clock = (\<lambda>k. ''2025-06-30T17:45:10''), write_ok = (\<lambda>p. False)\<rparr>"

definition example_empty :: dataframe where
  "example_empty = \<lparr>df_columns = [''Gly_2.4M'', ''Water''], df_rows = []\<rparr>"

text \<open>The rows of the example table that have water left, and the steps expected of them.\<close>

definition example_validated :: dataframe where
  "example_validated =
     \<lparr>df_columns = [''Tris_buffer'', ''Gly_2.4M'', ''Water''],
      df_rows = [mk_row 0 [(''Tris_buffer'', Num 2), (''Gly_2.4M'', Num 5), (''Water'', Num 100)],
                 mk_row 2 [(''Tris_buffer'', Num 0), (''Gly_2.4M'', Num 5), (''Water'', Num 50)],
                 mk_row 3 [(''Tris_buffer'', Num 30), (''Water'', Num 20)]]\<rparr>"

definition example_steps :: "step list" where
  "example_steps =
     [\<lparr>step_num = 1, pipette = ''pipette_right'', pipette_type = ''p20_single_gen2'',
       step_volume = 2, source = [''B1''], dest = [Str ''A1'']\<rparr>,
      \<lparr>step_num = 2, pipette = ''pipette_left'', pipette_type = ''p300_single_gen2'',
       step_volume = 30, source = [''B1''], dest = [Str ''A3'']\<rparr>,
      \<lparr>step_num = 3, pipette = ''pipette_right'', pipette_type = ''p20_single_gen2'',
       step_volume = 5, source = [''A1'', ''A1''], dest = [Str ''A1'', Str ''A2'']\<rparr>,
      \<lparr>step_num = 4, pipette = ''pipette_right'', pipette_type = ''p20_single_gen2'',
       step_volume = 20, source = [''B2''], dest = [Str ''A3'']\<rparr>,
      \<lparr>step_num = 5, pipette = ''pipette_left'', pipette_type = ''p300_single_gen2'',
       step_volume = 50, source = [''B2''], dest = [Str ''A2'']\<rparr>,
      \<lparr>step_num = 6, pipette = ''pipette_left'', pipette_type = ''p300_single_gen2'',
       step_volume = 100, source = [''B2''], dest = [Str ''A1'']\<rparr>]"

section \<open>Text operations, in the vocabulary of the properties\<close>

lemma starts_with_iff: "starts_with p s \<longleftrightarrow> (\<exists>b. s = p @ b)"
  by (induction p s rule: starts_with.induct) auto

lemma str_in_iff: "str_in p s \<longleftrightarrow> occurs_in p s"
proof (induction s)
  case Nil
  then show ?case by (auto simp: occurs_in_def)
next
  case (Cons c cs)
  have "occurs_in p (c # cs) \<longleftrightarrow> (\<exists>b. c # cs = p @ b) \<or> occurs_in p cs"
  proof
    assume "occurs_in p (c # cs)"
    then obtain a b where ab: "c # cs = a @ p @ b"
      by (auto simp: occurs_in_def)
    show "(\<exists>b. c # cs = p @ b) \<or> occurs_in p cs"
    proof (cases a)
      case Nil
      with ab show ?thesis by auto
    next
      case (Cons x a')
      with ab have "cs = a' @ p @ b" by simp
      then show ?thesis by (auto simp: occurs_in_def)
    qed
  next
    assume "(\<exists>b. c # cs = p @ b) \<or> occurs_in p cs"
    then show "occurs_in p (c # cs)"
    proof
      assume "\<exists>b. c # cs = p @ b"
      then obtain b where "c # cs = [] @ p @ b" by auto
      then show ?thesis unfolding occurs_in_def by blast
    next
      assume "occurs_in p cs"
      then obtain a b where "cs = a @ p @ b" by (auto simp: occurs_in_def)
      then have "c # cs = (c # a) @ p @ b" by simp
      then show ?thesis unfolding occurs_in_def by blast
    qed
  qed
  with Cons show ?case
    by (simp add: starts_with_iff)
qed

lemma any_in_lower_iff: "any_in_lower toks col \<longleftrightarrow> name_matches toks col"
  by (simp add: any_in_lower_def name_matches_def list_ex_iff str_in_iff)

lemma first_match_find: "first_match toks cols = find (name_matches toks) cols"
  by (induction cols) (simp_all add: any_in_lower_iff)

section \<open>Properties of the Batcher\<close>

lemma py_range_closed:
  "0 < step \<Longrightarrow>
   py_range i stop step = map (\<lambda>k. i + k * step) [0..<(stop - i + step - 1) div step]"
proof (induction i stop step rule: py_range.induct)
  case (1 i stop step)
  show ?case
  proof (cases "stop \<le> i")
    case True
    then have "(stop - i + step - 1) div step = 0"
      using "1.prems" by simp
    with True show ?thesis
      by (simp add: py_range.simps)
  next
    case False
    define x where "x = stop - (i + step) + step - 1"
    define m where "m = x div step"
    have ih: "py_range (i + step) stop step = map (\<lambda>k. i + step + k * step) [0..<m]"
      using "1.IH" False "1.prems" by (simp add: m_def x_def)
    have cnt: "(stop - i + step - 1) div step = Suc m"
    proof (cases "i + step \<le> stop")
      case True
      have "stop - i + step - 1 = x + step"
        using True "1.prems" unfolding x_def by linarith
      moreover have "(x + step) div step = Suc (x div step)"
        using "1.prems" by simp
      ultimately show ?thesis
        by (simp only: m_def)
    next
      case near: False
      then have "m = 0"
        using "1.prems" by (simp add: m_def x_def)
      moreover obtain d where d: "stop - i + step - 1 = step + d" "d < step"
        using near False "1.prems" by (intro that [of "stop - i - 1"]) linarith+
      have "(step + d) div step = 1"
        using d(2) by simp
      ultimately show ?thesis
        by (simp only: d(1))
    qed
    have "map (\<lambda>k. i + k * step) [0..<Suc m] = i # map (\<lambda>k. i + step + k * step) [0..<m]"
      by (simp add: upt_rec [of 0] map_Suc_upt [symmetric] del: upt_Suc)
    with ih cnt False "1.prems" show ?thesis
      by (simp add: py_range.simps [of i])
  qed
qed

lemma segment_loop_closed:
  "segment_loop df mw is segments out =
     (out @ map (\<lambda>k. Segment_Wells (length segments + Suc k) (len (iloc df (is ! k) (is ! k + mw))))
              [0..<length is],
      segments @ map (\<lambda>i. iloc df i (i + mw)) is)"
proof (induction "is" arbitrary: segments out)
  case Nil
  then show ?case by simp
next
  case (Cons i rest)
  have "map (\<lambda>k. Segment_Wells (length segments + Suc k)
                (len (iloc df ((i # rest) ! k) ((i # rest) ! k + mw)))) [0..<length (i # rest)]
        = Segment_Wells (Suc (length segments)) (len (iloc df i (i + mw)))
          # map (\<lambda>k. Segment_Wells (Suc (length segments) + Suc k)
                (len (iloc df (rest ! k) (rest ! k + mw)))) [0..<length rest]"
    by (simp add: upt_rec [of 0] map_Suc_upt [symmetric] del: upt_Suc)
  with Cons.IH show ?case
    by (simp add: Let_def)
qed

lemma concat_slices:
  "0 < m \<Longrightarrow> concat (map (\<lambda>i. take m (drop (i * m) xs)) [0..<k]) = take (k * m) xs"
proof (induction k)
  case 0
  then show ?case by simp
next
  case (Suc k)
  have "take (k * m) xs @ take m (drop (k * m) xs) = take (k * m + m) xs"
    by (simp add: take_add)
  with Suc show ?case
    by (simp add: add.commute)
qed

lemma slices_cover:
  assumes "0 < m"
  shows "concat (map (\<lambda>i. take m (drop (i * m) xs)) [0..<(length xs + m - 1) div m]) = xs"
proof -
  have "length xs \<le> ((length xs + m - 1) div m) * m"
  proof -
    have "(length xs + m - 1) mod m < m"
      using assms by simp
    moreover have "(length xs + m - 1) div m * m + (length xs + m - 1) mod m = length xs + m - 1"
      by simp
    ultimately show ?thesis
      using assms by linarith
  qed
  then show ?thesis
    using assms by (simp add: concat_slices)
qed

lemma segment_data_closed:
  "segment_data df 28
     = Inr (fst (segment_loop df 28 (py_range 0 (len df) 28) [] []),
            map (\<lambda>i. df\<lparr>df_rows := take 28 (drop (i * 28) (df_rows df))\<rparr>)
              [0..<(len df + 27) div 28])"
proof -
  have "py_range 0 (len df) 28 = map (\<lambda>j. j * 28) [0..<(len df + 27) div 28]"
    using py_range_closed [of 28 0 "len df"] by (simp add: add.commute)
  then have "snd (segment_loop df 28 (py_range 0 (len df) 28) [] [])
      = map (\<lambda>i. df\<lparr>df_rows := take 28 (drop (i * 28) (df_rows df))\<rparr>)
          [0..<(len df + 27) div 28]"
    by (simp add: segment_loop_closed iloc_def comp_def)
  then show ?thesis
    by (simp add: segment_data_def Let_def prod_eq_iff)
qed

text \<open>
  C1. With the capacity 28, \<^verbatim>\<open>segment_data\<close> raises nothing and returns \<open>ceil(n / 28)\<close>
  segments (\<open>n\<close> the number of rows); segment \<open>i\<close> holds exactly the rows at positions
  \<open>[i * 28, (i + 1) * 28)\<close> of the input, with the input's columns; and the segments'
  rows, concatenated in order, are the input's rows: no gap, no duplicate, no
  reordering. So 0 rows give 0 segments, 28 rows give 1, and 29 rows give 2, of 28 rows
  and 1 row.
\<close>

theorem segment_data_partition:
  "\<exists>out segments.
     segment_data df 28 = Inr (out, segments)
     \<and> length segments = (len df + 27) div 28
     \<and> segments = map (\<lambda>i. df\<lparr>df_rows := take 28 (drop (i * 28) (df_rows df))\<rparr>)
                      [0..<(len df + 27) div 28]
     \<and> concat (map df_rows segments) = df_rows df
     \<and> (len df = 0) = (segments = [])
     \<and> (len df = 28) = (map len segments = [28])
     \<and> (len df = 29) = (map len segments = [28, 1])"
proof -
  define k where "k = (len df + 27) div 28"
  define segments where
    "segments = map (\<lambda>i. df\<lparr>df_rows := take 28 (drop (i * 28) (df_rows df))\<rparr>) [0..<k]"
  have run: "segment_data df 28
      = Inr (fst (segment_loop df 28 (py_range 0 (len df) 28) [] []), segments)"
    unfolding segments_def k_def by (rule segment_data_closed)
  have rows: "map df_rows segments = map (\<lambda>i. take 28 (drop (i * 28) (df_rows df))) [0..<k]"
    by (simp add: segments_def comp_def)
  have cover: "concat (map df_rows segments) = df_rows df"
    using slices_cover [of 28 "df_rows df"] by (simp add: rows k_def len_def add.commute)
  have lens: "map len segments = map (\<lambda>i. min 28 (len df - i * 28)) [0..<k]"
    by (simp add: segments_def comp_def len_def min.commute)
  have e0: "(len df = 0) = (segments = [])"
    by (auto simp: segments_def k_def)
  have e28: "(len df = 28) = (map len segments = [28])"
  proof
    assume "len df = 28"
    then show "map len segments = [28]"
      by (simp add: lens k_def)
  next
    assume a: "map len segments = [28]"
    then have "length (map len segments) = 1" by simp
    then have k1: "k = 1" by (simp add: segments_def)
    with a have "min 28 (len df) = 28" by (simp add: lens)
    moreover from k1 have "len df \<le> 28" by (simp add: k_def)
    ultimately show "len df = 28" by simp
  qed
  have upt2: "[0..<2] = [0, Suc 0]"
    by (simp add: numeral_2_eq_2)
  have e29: "(len df = 29) = (map len segments = [28, 1])"
  proof
    assume "len df = 29"
    then have "k = 2" by (simp add: k_def)
    with \<open>len df = 29\<close> show "map len segments = [28, 1]"
      by (simp add: lens upt2)
  next
    assume a: "map len segments = [28, 1]"
    then have "length (map len segments) = 2" by simp
    then have k2: "k = 2" by (simp add: segments_def)
    with a have "min 28 (len df - 28) = 1"
      by (simp add: lens upt2)
    then show "len df = 29" by simp
  qed
  have count: "length segments = k"
    by (simp add: segments_def)
  have "segment_data df 28
          = Inr (fst (segment_loop df 28 (py_range 0 (len df) 28) [] []), segments)
        \<and> length segments = k
        \<and> segments = map (\<lambda>i. df\<lparr>df_rows := take 28 (drop (i * 28) (df_rows df))\<rparr>) [0..<k]
        \<and> concat (map df_rows segments) = df_rows df
        \<and> (len df = 0) = (segments = [])
        \<and> (len df = 28) = (map len segments = [28])
        \<and> (len df = 29) = (map len segments = [28, 1])"
    by (intro conjI) (fact run count segments_def cover e0 e28 e29)+
  then show ?thesis
    unfolding k_def by (intro exI)
qed
section \<open>Properties of the Well Assigner\<close>

lemma well_loop_closed:
  "well_loop i rs = map (\<lambda>k. Str (grid_position k)) [i..<i + length rs]"
proof (induction rs arbitrary: i)
  case Nil
  then show ?case by simp
next
  case (Cons r rs)
  have "i < Suc i + length rs"
    by simp
  then have "[i..<Suc i + length rs] = i # [Suc i..<Suc i + length rs]"
    by (rule upt_conv_Cons)
  moreover have "i + length (r # rs) = Suc i + length rs"
    by simp
  ultimately have "[i..<i + length (r # rs)] = i # [Suc i..<Suc i + length rs]"
    by (simp only:)
  with Cons.IH [of "Suc i"] show ?case
    by (simp add: grid_position_def grid_rows_def grid_cols_def Let_def)
qed

lemma grid_positions_distinct: "distinct (map grid_position [0..<96])"
  by code_simp

lemma grid_positions_24:
  "map grid_position [0..<24] =
     [''A1'', ''A2'', ''A3'', ''A4'', ''A5'', ''A6'', ''A7'', ''A8'', ''A9'', ''A10'', ''A11'', ''A12'',
      ''B1'', ''B2'', ''B3'', ''B4'', ''B5'', ''B6'', ''B7'', ''B8'', ''B9'', ''B10'', ''B11'', ''B12'']"
  by code_simp

lemma take_upt_min: "take m [0..<n] = [0..<min m n]"
  by (cases "m \<le> n") (simp_all add: take_upt min_def)

lemma synthesized_distinct:
  assumes "n \<le> 96"
  shows "distinct (map (\<lambda>k. Str (grid_position k)) [0..<n])"
proof -
  have "map grid_position [0..<n] = take n (map grid_position [0..<96])"
    using assms by (simp add: take_map take_upt_min min_def)
  then have "distinct (map grid_position [0..<n])"
    using grid_positions_distinct by (simp add: distinct_take)
  then have "distinct (map Str (map grid_position [0..<n]))"
    by (simp add: distinct_map inj_on_def)
  then show ?thesis by (simp add: comp_def)
qed

lemma synthesized_24:
  "take 24 (map (\<lambda>k. Str (grid_position k)) [0..<n])
     = take n (map Str (map grid_position [0..<24]))"
proof -
  have "take 24 (map (\<lambda>k. Str (grid_position k)) [0..<n])
          = map (\<lambda>k. Str (grid_position k)) [0..<min 24 n]"
    by (simp only: take_map take_upt_min)
  also have "\<dots> = take n (map (\<lambda>k. Str (grid_position k)) [0..<24])"
    by (simp only: take_map take_upt_min min.commute)
  finally show ?thesis by (simp add: comp_def)
qed

lemma get_well_positions_closed:
  "position_cols df = [] \<Longrightarrow>
   get_well_positions df = map (\<lambda>k. Str (grid_position k)) [0..<len df]"
  by (simp add: get_well_positions_def well_loop_closed len_def)

text \<open>
  C2. For a table with no position column, \<^verbatim>\<open>get_well_positions\<close> gives the row at
  position \<open>k\<close> the grid slot \<open>k\<close> in row-major order: the first twelve rows get A1 to A12,
  the next twelve B1 to B12, and so on (a row past the 96 slots gets \<^verbatim>\<open>X\<close> and its position).
  With at most 96 rows no two rows get the same position. Every segment that
  \<^verbatim>\<open>segment_data\<close> cuts from the table is numbered from its own first row, so the
  enumeration starts again at A1 in every segment, and the positions within a segment
  are pairwise different.
\<close>

theorem get_well_positions_synthesized:
  assumes "position_cols df = []"
  shows "get_well_positions df = map (\<lambda>k. Str (grid_position k)) [0..<len df]
    \<and> take 24 (get_well_positions df)
        = take (len df) (map Str
           [''A1'', ''A2'', ''A3'', ''A4'', ''A5'', ''A6'', ''A7'', ''A8'', ''A9'', ''A10'', ''A11'', ''A12'',
            ''B1'', ''B2'', ''B3'', ''B4'', ''B5'', ''B6'', ''B7'', ''B8'', ''B9'', ''B10'', ''B11'', ''B12''])
    \<and> (len df \<le> 96 \<longrightarrow> distinct (get_well_positions df))
    \<and> (\<forall>out segments. segment_data df 28 = Inr (out, segments) \<longrightarrow>
          (\<forall>seg \<in> set segments.
             get_well_positions seg = map (\<lambda>k. Str (grid_position k)) [0..<len seg]
             \<and> distinct (get_well_positions seg)))"
proof (intro conjI allI impI ballI)
  show closed: "get_well_positions df = map (\<lambda>k. Str (grid_position k)) [0..<len df]"
    using assms by (rule get_well_positions_closed)
  show "take 24 (get_well_positions df)
        = take (len df) (map Str
           [''A1'', ''A2'', ''A3'', ''A4'', ''A5'', ''A6'', ''A7'', ''A8'', ''A9'', ''A10'', ''A11'', ''A12'',
            ''B1'', ''B2'', ''B3'', ''B4'', ''B5'', ''B6'', ''B7'', ''B8'', ''B9'', ''B10'', ''B11'', ''B12''])"
    unfolding closed synthesized_24 grid_positions_24 ..
  show "distinct (get_well_positions df)" if "len df \<le> 96"
    unfolding closed using that by (rule synthesized_distinct)
next
  fix out segments seg
  assume run: "segment_data df 28 = Inr (out, segments)" and seg: "seg \<in> set segments"
  from run have "segments = map (\<lambda>i. df\<lparr>df_rows := take 28 (drop (i * 28) (df_rows df))\<rparr>)
                              [0..<(len df + 27) div 28]"
    by (simp add: segment_data_closed)
  with seg obtain i where i: "seg = df\<lparr>df_rows := take 28 (drop (i * 28) (df_rows df))\<rparr>"
    by auto
  then have cols: "position_cols seg = []" and small: "len seg \<le> 96"
    using assms by (simp_all add: position_cols_def len_def)
  show "get_well_positions seg = map (\<lambda>k. Str (grid_position k)) [0..<len seg]"
    using cols by (rule get_well_positions_closed)
  show "distinct (get_well_positions seg)"
    unfolding get_well_positions_closed [OF cols] using small by (rule synthesized_distinct)
qed

theorem get_well_positions_synthesized_witness:
  "\<exists>out s1 s2.
     segment_data \<lparr>df_columns = [''Gly_2.4M''],
                   df_rows = map (\<lambda>i. mk_row i [(''Gly_2.4M'', Num 5)]) [0..<29]\<rparr> 28
       = Inr (out, [s1, s2])
     \<and> len s1 = 28 \<and> len s2 = 1
     \<and> take 2 (get_well_positions s1) = [Str ''A1'', Str ''A2'']
     \<and> get_well_positions s2 = [Str ''A1'']
     \<and> distinct (get_well_positions s1)"
proof -
  define df where "df = \<lparr>df_columns = [''Gly_2.4M''],
                         df_rows = map (\<lambda>i. mk_row i [(''Gly_2.4M'', Num 5)]) [0..<29]\<rparr>"
  define s1 where "s1 = df\<lparr>df_rows := take 28 (drop (0 * 28) (df_rows df))\<rparr>"
  define s2 where "s2 = df\<lparr>df_rows := take 28 (drop (1 * 28) (df_rows df))\<rparr>"
  have cols: "position_cols df = []"
    by (simp add: df_def position_cols_def any_in_lower_def lower_def lower_char_def)
  have "(len df + 27) div 28 = 2"
    by (simp add: df_def len_def)
  moreover have "[0..<2] = [0, 1]"
    by (simp add: numeral_2_eq_2)
  ultimately have run: "segment_data df 28
      = Inr (fst (segment_loop df 28 (py_range 0 (len df) 28) [] []), [s1, s2])"
    using segment_data_closed [of df] by (simp only: s1_def s2_def list.map)
  have l1: "len s1 = 28" and l2: "len s2 = 1"
    by (simp_all add: s1_def s2_def df_def len_def)
  from get_well_positions_synthesized [OF cols] run
  have each: "\<forall>seg \<in> set [s1, s2].
      get_well_positions seg = map (\<lambda>k. Str (grid_position k)) [0..<len seg]
      \<and> distinct (get_well_positions seg)"
    by blast
  have g0: "grid_position 0 = ''A1''" and g1: "grid_position (Suc 0) = ''A2''"
    by (simp_all add: grid_position_def str_nat.simps)
  from each have p2: "get_well_positions s2 = [Str ''A1'']"
    by (simp add: l2 g0)
  from each have "get_well_positions s1 = map (\<lambda>k. Str (grid_position k)) [0..<28]"
    by (simp add: l1)
  then have "take 2 (get_well_positions s1) = map (\<lambda>k. Str (grid_position k)) [0..<2]"
    by (simp only: take_map take_upt_min) simp
  then have p1: "take 2 (get_well_positions s1) = [Str ''A1'', Str ''A2'']"
    using \<open>[0..<2] = [0, 1]\<close> by (simp add: g0 g1)
  have "s1 \<in> set [s1, s2]"
    by simp
  with each have d1: "distinct (get_well_positions s1)"
    by blast
  from run l1 l2 p1 p2 d1 show ?thesis
    unfolding df_def by blast
qed

section \<open>Properties of the Transfer Grouper\<close>

lemma collect_py_index_Inr:
  "collect (py_index xs) idx = Inr ys \<Longrightarrow> ys = map (nth xs) idx \<and> (\<forall>i \<in> set idx. i < length xs)"
proof (induction idx arbitrary: ys)
  case Nil
  then show ?case by simp
next
  case (Cons i idx)
  then show ?case
    by (auto simp: py_index_def split: if_splits sum.splits)
qed

lemma numbers_append: "numbers (xs @ ys) = numbers xs @ numbers ys"
  by (induction xs rule: numbers.induct) simp_all

lemma numbers_map_Num: "numbers (map Num vs) = vs"
  by (induction vs) simp_all

lemma numbers_map_Str: "numbers (map Str ss) = []"
  by (induction ss) simp_all

lemma numbers_group_keys: "numbers (group_keys cs) = sort (remdups (numbers cs))"
  by (simp add: group_keys_def numbers_append numbers_map_Num numbers_map_Str)

lemma volume_loop_Inr:
  "volume_loop r tube df col wp ks acc = Inr ts \<Longrightarrow>
   ts = acc @ map (\<lambda>v. \<lparr>reagent = r, volume = v, source_tube = tube,
                          wells = map (nth wp) (group_index df col (Num v)),
                          count = length (group_index df col (Num v))\<rparr>)
              (filter (\<lambda>v. 0 < v) (numbers ks))
   \<and> (\<forall>v \<in> set (numbers ks). 0 < v \<longrightarrow> (\<forall>i \<in> set (group_index df col (Num v)). i < length wp))"
proof (induction r tube df col wp ks acc arbitrary: ts rule: volume_loop.induct)
  case (1 r tube df col_name well_positions transfers)
  then show ?case by simp
next
  case (2 r tube df col_name well_positions vol ks transfers)
  show ?case
  proof (cases "vol \<le> 0")
    case True
    with 2 show ?thesis by simp
  next
    case False
    with "2.prems" obtain ws where
      ws: "collect (py_index well_positions) (group_index df col_name (Num vol)) = Inr ws"
      and rest: "volume_loop r tube df col_name well_positions ks
                   (transfers @ [\<lparr>reagent = r, volume = vol, source_tube = tube,
                                   wells = ws, count = length ws\<rparr>]) = Inr ts"
      by (auto split: sum.splits)
    from collect_py_index_Inr [OF ws]
    have w: "ws = map (nth well_positions) (group_index df col_name (Num vol))"
      and inr: "\<forall>i \<in> set (group_index df col_name (Num vol)). i < length well_positions"
      by simp_all
    from "2.IH"(2) [OF False ws rest] False w inr show ?thesis
      by simp
  qed
qed simp_all

lemma reagent_loop_Inr:
  "reagent_loop df columns wp rs acc = Inr ts \<Longrightarrow>
   ts = acc @ concat (map (requests_of df columns wp) rs)"
proof (induction rs arbitrary: acc)
  case Nil
  then show ?case by simp
next
  case (Cons r rs)
  show ?case
  proof (cases "map_of columns r")
    case None
    with Cons show ?thesis
      by (simp add: requests_of_def)
  next
    case (Some col)
    with Cons.prems obtain l ts' where
      l: "map_of LIQUID_DEFINITIONS r = Some l"
      and v: "volume_loop r (tube_position l) df col wp (group_keys (column_values df col)) acc = Inr ts'"
      and rest: "reagent_loop df columns wp rs ts' = Inr ts"
      by (auto split: option.splits if_splits sum.splits)
    from volume_loop_Inr [OF v] have "ts' = acc @ requests_of df columns wp r"
      by (simp add: requests_of_def Some l numbers_group_keys)
    with Cons.IH [OF rest] show ?thesis
      by simp
  qed
qed

lemma group_by_Inr:
  "group_by_reagent_and_volume df columns wp = Inr ts \<Longrightarrow>
   ts = concat (map (requests_of df columns wp) reagent_order)"
  using reagent_loop_Inr [of df columns wp reagent_order "[]" ts]
  by (simp add: group_by_reagent_and_volume_def)

lemma set_numbers: "v \<in> set (numbers cs) \<longleftrightarrow> Num v \<in> set cs"
  by (induction cs rule: numbers.induct) auto

lemma reagent_order_defined:
  "r \<in> set reagent_order \<Longrightarrow> \<exists>l. map_of LIQUID_DEFINITIONS r = Some l"
  by (auto simp: reagent_order_def LIQUID_DEFINITIONS_def)

lemma wells_by_rows:
  "map (nth wp) (group_index df col k)
     = map (\<lambda>row. wp ! fst row) (filter (\<lambda>row. snd row col = k) (df_rows df))"
  by (simp add: group_index_def comp_def)

lemma contributing_bound:
  "map_of columns (reagent t) = Some col \<Longrightarrow>
   contributing df columns t = filter (\<lambda>row. snd row col = Num (volume t)) (df_rows df)"
  by (simp add: contributing_def)

lemma in_requests_of:
  assumes "t \<in> set (requests_of df columns wp r)"
  shows "reagent t = r \<and> 0 < volume t
    \<and> (\<exists>col l. map_of columns r = Some col \<and> map_of LIQUID_DEFINITIONS r = Some l
          \<and> source_tube t = tube_position l
          \<and> Num (volume t) \<in> set (column_values df col)
          \<and> wells t = map (nth wp) (group_index df col (Num (volume t)))
          \<and> count t = length (group_index df col (Num (volume t))))"
proof -
  from assms obtain col where col: "map_of columns r = Some col"
    by (cases "map_of columns r") (auto simp: requests_of_def)
  from assms col obtain l where l: "map_of LIQUID_DEFINITIONS r = Some l"
    by (cases "map_of LIQUID_DEFINITIONS r") (auto simp: requests_of_def)
  from assms col l obtain v where
    v: "v \<in> set (numbers (column_values df col))" "0 < v"
    and t: "t = \<lparr>reagent = r, volume = v, source_tube = tube_position l,
                 wells = map (nth wp) (group_index df col (Num v)),
                 count = length (group_index df col (Num v))\<rparr>"
    by (auto simp: requests_of_def)
  from v(1) have "Num v \<in> set (column_values df col)"
    by (simp add: set_numbers)
  with col l v(2) t show ?thesis
    by simp
qed

lemma requests_of_volumes:
  "sorted_wrt (<) (map volume (requests_of df columns wp r))"
proof -
  have "sorted_wrt (<) (filter (\<lambda>v. 0 < v) (sort (remdups xs)))" for xs :: "real list"
    by (rule sorted_wrt_filter) (simp add: strict_sorted_iff)
  then show ?thesis
    by (auto simp: requests_of_def comp_def split: option.splits)
qed

lemma filter_concat_blocks:
  assumes "distinct rs" and "\<And>r t. t \<in> set (f r) \<Longrightarrow> key t = r"
  shows "filter (\<lambda>t. key t = r) (concat (map f rs)) = (if r \<in> set rs then f r else [])"
  using assms(1)
proof (induction rs)
  case Nil
  then show ?case by simp
next
  case (Cons a rs)
  have own: "filter (\<lambda>t. key t = r) (f a) = (if a = r then f a else [])"
    using assms(2) [of _ a] by (auto simp: filter_empty_conv filter_id_conv)
  from Cons show ?case
    by (auto simp: own)
qed

lemma requests_by_reagent:
  assumes "group_by_reagent_and_volume df columns wp = Inr ts"
  shows "filter (\<lambda>t. reagent t = r) ts
           = (if r \<in> set reagent_order then requests_of df columns wp r else [])"
proof -
  have "distinct reagent_order"
    by (simp add: reagent_order_def)
  then show ?thesis
    unfolding group_by_Inr [OF assms]
    by (rule filter_concat_blocks) (simp add: in_requests_of)
qed

lemma in_group_by:
  assumes "group_by_reagent_and_volume df columns wp = Inr ts" and "t \<in> set ts"
  shows "reagent t \<in> set reagent_order \<and> t \<in> set (requests_of df columns wp (reagent t))"
proof -
  from assms obtain r where r: "r \<in> set reagent_order" "t \<in> set (requests_of df columns wp r)"
    unfolding group_by_Inr [OF assms(1)] by auto
  moreover from r(2) have "reagent t = r"
    by (simp add: in_requests_of)
  ultimately show ?thesis by simp
qed

lemma request_facts:
  assumes "group_by_reagent_and_volume df columns wp = Inr ts" and "t \<in> set ts"
  obtains col l where
    "map_of columns (reagent t) = Some col"
    "map_of LIQUID_DEFINITIONS (reagent t) = Some l"
    "source_tube t = tube_position l"
    "0 < volume t"
    "contributing df columns t = filter (\<lambda>row. snd row col = Num (volume t)) (df_rows df)"
    "contributing df columns t \<noteq> []"
    "wells t = map (\<lambda>row. wp ! fst row) (contributing df columns t)"
    "count t = length (contributing df columns t)"
proof -
  from in_group_by [OF assms] have "t \<in> set (requests_of df columns wp (reagent t))"
    by simp
  from in_requests_of [OF this] obtain col l where
    pos: "0 < volume t"
    and col: "map_of columns (reagent t) = Some col"
    and l: "map_of LIQUID_DEFINITIONS (reagent t) = Some l"
    and tube: "source_tube t = tube_position l"
    and occurs: "Num (volume t) \<in> set (column_values df col)"
    and w: "wells t = map (nth wp) (group_index df col (Num (volume t)))"
    and c: "count t = length (group_index df col (Num (volume t)))"
    by blast
  note rows = contributing_bound [OF col, of df]
  have w': "wells t = map (\<lambda>row. wp ! fst row) (contributing df columns t)"
    by (simp only: w wells_by_rows rows)
  have c': "count t = length (contributing df columns t)"
    by (simp add: c group_index_def rows)
  from occurs obtain row0 where "row0 \<in> set (df_rows df)" "snd row0 col = Num (volume t)"
    unfolding column_values_def by auto
  then have "row0 \<in> set (contributing df columns t)"
    by (simp add: rows)
  then have ne: "contributing df columns t \<noteq> []"
    by auto
  from col l tube pos rows ne w' c' show thesis
    by (rule that)
qed

lemma example_positions:
  "get_well_positions example_segment = [Str ''A1'', Str ''A2'', Str ''A3'', Str ''A4'']"
  by (simp add: get_well_positions_def position_cols_def example_segment_def any_in_lower_def
      lower_def lower_char_def grid_rows_def grid_cols_def str_nat.simps)

lemma example_reset:
  "reset_index example_segment =
     \<lparr>df_columns = [''Tris_buffer'', ''Gly_2.4M''],
      df_rows = [(0, snd (mk_row 28 [(''Tris_buffer'', Num 2), (''Gly_2.4M'', Num 5)])),
                 (1, snd (mk_row 29 [(''Tris_buffer'', Num 2), (''Gly_2.4M'', Num 10)])),
                 (2, snd (mk_row 30 [(''Tris_buffer'', Num 0), (''Gly_2.4M'', Num 5)])),
                 (3, snd (mk_row 31 [(''Tris_buffer'', Num 30)]))]\<rparr>"
  by (simp add: reset_index_def example_segment_def len_def upt_rec [of 0] upt_rec [of 1]
      upt_rec [of 2] upt_rec [of 3] upt_rec [of 4])

lemma example_run:
  "group_by_reagent_and_volume (reset_index example_segment) example_columns
     (get_well_positions example_segment) = Inr example_transfers"
  unfolding example_positions example_reset
  by (simp add: group_by_reagent_and_volume_def reagent_order_def LIQUID_DEFINITIONS_def
      example_columns_def example_transfers_def group_keys_def column_values_def
      group_index_def py_index_def mk_row_def)

text \<open>
  C3. Of every transfer that \<^verbatim>\<open>group_by_reagent_and_volume\<close> returns: the volume is above
  zero; the contributing rows are the rows whose cell in the column bound to the
  transfer's reagent is that volume, so they share reagent and volume; the wells are
  the positions of those rows and the count is their number; the source tube is the tube
  of the reagent's liquid definition, a function of the reagent alone; and a row whose
  cell in that column is not a number above zero contributes to none. For each reagent
  of the priority sequence that has a bound column, the wells of all its transfers
  together are the positions of the rows whose cell in that column is a number above
  zero.
\<close>

theorem grouper_invariant:
  assumes "group_by_reagent_and_volume df columns wp = Inr ts"
  shows "(\<forall>t \<in> set ts.
            0 < volume t
            \<and> wells t = map (\<lambda>row. wp ! fst row) (contributing df columns t)
            \<and> count t = length (contributing df columns t)
            \<and> contributing df columns t \<noteq> []
            \<and> (\<exists>col l. map_of columns (reagent t) = Some col
                  \<and> map_of LIQUID_DEFINITIONS (reagent t) = Some l
                  \<and> source_tube t = tube_position l
                  \<and> (\<forall>row \<in> set (contributing df columns t). snd row col = Num (volume t))
                  \<and> (\<forall>row \<in> set (df_rows df).
                        \<not> is_positive (snd row col) \<longrightarrow> row \<notin> set (contributing df columns t))))
       \<and> (\<forall>r col. r \<in> set reagent_order \<and> map_of columns r = Some col \<longrightarrow>
             (\<Union>t \<in> {t \<in> set ts. reagent t = r}. set (wells t))
               = {wp ! fst row | row. row \<in> set (df_rows df) \<and> is_positive (snd row col)})"
proof (intro conjI ballI allI impI)
  fix t assume t: "t \<in> set ts"
  from request_facts [OF assms t] obtain col l where
    col: "map_of columns (reagent t) = Some col"
    and l: "map_of LIQUID_DEFINITIONS (reagent t) = Some l"
    and tube: "source_tube t = tube_position l"
    and pos: "0 < volume t"
    and rows: "contributing df columns t
                 = filter (\<lambda>row. snd row col = Num (volume t)) (df_rows df)"
    and ne: "contributing df columns t \<noteq> []"
    and w: "wells t = map (\<lambda>row. wp ! fst row) (contributing df columns t)"
    and c: "count t = length (contributing df columns t)"
    by blast
  show "0 < volume t" by (rule pos)
  show "wells t = map (\<lambda>row. wp ! fst row) (contributing df columns t)" by (rule w)
  show "count t = length (contributing df columns t)" by (rule c)
  show "contributing df columns t \<noteq> []" by (rule ne)
  have same: "\<forall>row \<in> set (contributing df columns t). snd row col = Num (volume t)"
    by (simp add: rows)
  have excluded: "\<forall>row \<in> set (df_rows df).
      \<not> is_positive (snd row col) \<longrightarrow> row \<notin> set (contributing df columns t)"
    using pos by (auto simp: rows)
  from col l tube same excluded
  show "\<exists>col l. map_of columns (reagent t) = Some col
          \<and> map_of LIQUID_DEFINITIONS (reagent t) = Some l
          \<and> source_tube t = tube_position l
          \<and> (\<forall>row \<in> set (contributing df columns t). snd row col = Num (volume t))
          \<and> (\<forall>row \<in> set (df_rows df).
                \<not> is_positive (snd row col) \<longrightarrow> row \<notin> set (contributing df columns t))"
    by blast
next
  fix r col assume rc: "r \<in> set reagent_order \<and> map_of columns r = Some col"
  then obtain l where l: "map_of LIQUID_DEFINITIONS r = Some l"
    using reagent_order_defined by blast
  have "set (filter (\<lambda>t. reagent t = r) ts) = set (requests_of df columns wp r)"
    using requests_by_reagent [OF assms, of r] rc by simp
  then have req: "{t \<in> set ts. reagent t = r} = set (requests_of df columns wp r)"
    by simp
  have "(\<Union>t \<in> set (requests_of df columns wp r). set (wells t))
      = {wp ! fst row | row. row \<in> set (df_rows df) \<and> is_positive (snd row col)}"
  proof (intro set_eqI iffI)
    fix x assume "x \<in> (\<Union>t \<in> set (requests_of df columns wp r). set (wells t))"
    then obtain t where t: "t \<in> set (requests_of df columns wp r)" and x: "x \<in> set (wells t)"
      by blast
    from in_requests_of [OF t] rc have
      "0 < volume t" "wells t = map (nth wp) (group_index df col (Num (volume t)))"
      by auto
    with x obtain row where row: "row \<in> set (df_rows df)" "snd row col = Num (volume t)"
        and xr: "x = wp ! fst row"
      by (auto simp: wells_by_rows)
    from row \<open>0 < volume t\<close> have "row \<in> set (df_rows df) \<and> is_positive (snd row col)"
      by simp
    with xr show "x \<in> {wp ! fst row | row. row \<in> set (df_rows df) \<and> is_positive (snd row col)}"
      by blast
  next
    fix x assume "x \<in> {wp ! fst row | row. row \<in> set (df_rows df) \<and> is_positive (snd row col)}"
    then obtain row where row: "row \<in> set (df_rows df)" "is_positive (snd row col)"
        and x: "x = wp ! fst row"
      by blast
    from row(2) obtain v where v: "snd row col = Num v" "0 < v"
      by (cases "snd row col") auto
    define t where "t = \<lparr>reagent = r, volume = v, source_tube = tube_position l,
                          wells = map (nth wp) (group_index df col (Num v)),
                          count = length (group_index df col (Num v))\<rparr>"
    from row(1) v(1) have "Num v \<in> set (column_values df col)"
      by (force simp: column_values_def)
    then have "v \<in> set (numbers (column_values df col))"
      by (simp add: set_numbers)
    with v(2) rc l have "t \<in> set (requests_of df columns wp r)"
      by (simp add: requests_of_def t_def)
    moreover from row(1) v(1) x have "x \<in> set (wells t)"
      by (auto simp: t_def wells_by_rows)
    ultimately show "x \<in> (\<Union>t \<in> set (requests_of df columns wp r). set (wells t))"
      by blast
  qed
  then show "(\<Union>t \<in> {t \<in> set ts. reagent t = r}. set (wells t))
      = {wp ! fst row | row. row \<in> set (df_rows df) \<and> is_positive (snd row col)}"
    by (simp only: req)
qed


theorem grouper_invariant_witness:
  "group_by_reagent_and_volume (reset_index example_segment) example_columns
     (get_well_positions example_segment) = Inr example_transfers
   \<and> (\<Union>t \<in> {t \<in> set example_transfers. reagent t = ''glycine''}. set (wells t))
       = {get_well_positions example_segment ! fst row | row.
            row \<in> set (df_rows (reset_index example_segment))
            \<and> is_positive (snd row ''Gly_2.4M'')}
   \<and> 0 < volume (example_transfers ! 2)
   \<and> count (example_transfers ! 2)
       = length (contributing (reset_index example_segment) example_columns (example_transfers ! 2))"
proof -
  note inv = grouper_invariant [OF example_run]
  have bound: "''glycine'' \<in> set reagent_order
      \<and> map_of example_columns ''glycine'' = Some ''Gly_2.4M''"
    by (simp add: reagent_order_def example_columns_def)
  have member: "example_transfers ! 2 \<in> set example_transfers"
    by (simp add: example_transfers_def)
  from inv [THEN conjunct2, rule_format, OF bound] inv [THEN conjunct1, rule_format, OF member]
    example_run
  show ?thesis
    by blast
qed

lemma volume_loop_rows:
  "df_rows df' = df_rows df \<Longrightarrow>
   volume_loop r tube df' col wp ks acc = volume_loop r tube df col wp ks acc"
proof (induction ks arbitrary: acc)
  case Nil
  then show ?case by simp
next
  case (Cons k ks)
  then show ?case
    by (cases k) (simp_all add: group_index_def split: sum.splits)
qed

lemma reagent_loop_columns:
  "df_rows df' = df_rows df \<Longrightarrow> set (df_columns df') = set (df_columns df) \<Longrightarrow>
   reagent_loop df' columns wp rs acc = reagent_loop df columns wp rs acc"
proof (induction rs arbitrary: acc)
  case Nil
  then show ?case by simp
next
  case (Cons r rs)
  then show ?case
    by (simp add: volume_loop_rows [of df' df] column_values_def split: option.splits sum.splits)
qed

text \<open>
  C4. The transfers that \<^verbatim>\<open>group_by_reagent_and_volume\<close> returns come reagent by reagent in
  the fixed sequence tris, nacl, glycine, water, whatever the order of the table's
  columns (a table with the same rows and the same columns in another order gives the
  same transfers); the transfers of one reagent come in strictly ascending volume; and
  the wells of each transfer are the positions of its contributing rows in the order of
  the rows in the segment.
\<close>

theorem grouper_order:
  assumes "group_by_reagent_and_volume df columns wp = Inr ts"
  shows "ts = concat (map (\<lambda>r. filter (\<lambda>t. reagent t = r) ts) [''tris'', ''nacl'', ''glycine'', ''water''])
    \<and> (\<forall>df'. df_rows df' = df_rows df \<and> set (df_columns df') = set (df_columns df) \<longrightarrow>
          group_by_reagent_and_volume df' columns wp = Inr ts)
    \<and> (\<forall>r. sorted_wrt (<) (map volume (filter (\<lambda>t. reagent t = r) ts)))
    \<and> map wells ts = map (\<lambda>t. map (\<lambda>row. wp ! fst row) (contributing df columns t)) ts"
proof (intro conjI allI impI)
  have "concat (map (\<lambda>r. filter (\<lambda>t. reagent t = r) ts) reagent_order)
          = concat (map (requests_of df columns wp) reagent_order)"
    by (simp add: requests_by_reagent [OF assms] cong: map_cong)
  also have "\<dots> = ts"
    by (rule group_by_Inr [OF assms, symmetric])
  finally show "ts = concat (map (\<lambda>r. filter (\<lambda>t. reagent t = r) ts)
                              [''tris'', ''nacl'', ''glycine'', ''water''])"
    by (simp add: reagent_order_def)
next
  fix df' :: dataframe
  assume "df_rows df' = df_rows df \<and> set (df_columns df') = set (df_columns df)"
  then show "group_by_reagent_and_volume df' columns wp = Inr ts"
    using assms by (simp add: group_by_reagent_and_volume_def reagent_loop_columns [of df' df])
next
  fix r show "sorted_wrt (<) (map volume (filter (\<lambda>t. reagent t = r) ts))"
    by (simp add: requests_by_reagent [OF assms] requests_of_volumes)
next
  show "map wells ts = map (\<lambda>t. map (\<lambda>row. wp ! fst row) (contributing df columns t)) ts"
  proof (rule map_cong [OF refl])
    fix t assume "t \<in> set ts"
    from request_facts [OF assms this]
    show "wells t = map (\<lambda>row. wp ! fst row) (contributing df columns t)"
      by blast
  qed
qed

theorem grouper_order_witness:
  "map reagent example_transfers = [''tris'', ''tris'', ''glycine'', ''glycine'']
   \<and> example_transfers
       = concat (map (\<lambda>r. filter (\<lambda>t. reagent t = r) example_transfers)
           [''tris'', ''nacl'', ''glycine'', ''water''])
   \<and> sorted_wrt (<) (map volume (filter (\<lambda>t. reagent t = ''tris'') example_transfers))
   \<and> map volume (filter (\<lambda>t. reagent t = ''tris'') example_transfers) = [2, 30]
   \<and> group_by_reagent_and_volume
        ((reset_index example_segment)\<lparr>df_columns := [''Gly_2.4M'', ''Tris_buffer'']\<rparr>)
        example_columns (get_well_positions example_segment) = Inr example_transfers"
proof -
  note ord = grouper_order [OF example_run]
  have perm: "df_rows ((reset_index example_segment)\<lparr>df_columns := [''Gly_2.4M'', ''Tris_buffer'']\<rparr>)
        = df_rows (reset_index example_segment)
      \<and> set (df_columns ((reset_index example_segment)\<lparr>df_columns := [''Gly_2.4M'', ''Tris_buffer'']\<rparr>))
        = set (df_columns (reset_index example_segment))"
    by (auto simp: reset_index_def example_segment_def)
  have vals: "map reagent example_transfers = [''tris'', ''tris'', ''glycine'', ''glycine'']"
    "map volume (filter (\<lambda>t. reagent t = ''tris'') example_transfers) = [2, 30]"
    by (simp_all add: example_transfers_def)
  from ord [THEN conjunct1] ord [THEN conjunct2, THEN conjunct1, rule_format, OF perm]
    ord [THEN conjunct2, THEN conjunct2, THEN conjunct1, rule_format, of "''tris''"] vals
  show ?thesis
    by blast
qed

lemma reset_index_rows:
  assumes "row \<in> set (df_rows (reset_index seg))"
  obtains j where "j < len seg" "row = (j, snd (df_rows seg ! j))"
proof -
  from assms have "row \<in> set (zip [0..<len seg] (map snd (df_rows seg)))"
    by (simp add: reset_index_def)
  then obtain j where "j < len seg" "fst row = [0..<len seg] ! j"
      "snd row = map snd (df_rows seg) ! j"
    by (auto simp: set_zip len_def)
  then have "j < len seg" "row = (j, snd (df_rows seg ! j))"
    by (simp_all add: len_def prod_eq_iff)
  then show thesis by (rule that)
qed

text \<open>
  C10. In a segment with no position column, a row whose cell in a reagent's bound column
  is missing contributes to none of that reagent's transfers: its position is in the wells
  of none of them, as for a row with a volume of zero or less. The row still takes its
  slot of the enumeration: the positions number every row of the segment, and the row at
  position \<open>i\<close> holds grid slot \<open>i\<close>. The transfers are those the segment's steps are made
  from.
\<close>

theorem missing_value_excluded:
  assumes "position_cols seg = []" and "len seg \<le> 28"
    and "map_of columns r = Some col"
    and "i < len seg" and "snd (df_rows seg ! i) col = NaN"
    and "group_by_reagent_and_volume (reset_index seg) columns (get_well_positions seg) = Inr ts"
  shows "(\<forall>t \<in> set ts. reagent t = r \<longrightarrow> get_well_positions seg ! i \<notin> set (wells t))
    \<and> length (get_well_positions seg) = len seg
    \<and> get_well_positions seg ! i = Str (grid_position i)
    \<and> generate_protocol_steps_for_segment seg columns k = Inr (steps_loop columns ts 1 [])"
proof (intro conjI ballI impI)
  note wp = get_well_positions_closed [OF assms(1)]
  show len: "length (get_well_positions seg) = len seg"
    by (simp add: wp)
  show "get_well_positions seg ! i = Str (grid_position i)"
    using assms(4) by (simp add: wp)
  have dist: "distinct (get_well_positions seg)"
    unfolding wp using assms(2) by (intro synthesized_distinct) simp
  show "generate_protocol_steps_for_segment seg columns k = Inr (steps_loop columns ts 1 [])"
    using assms(6) by (simp add: generate_protocol_steps_for_segment_def Let_def)
  fix t assume t: "t \<in> set ts" and r: "reagent t = r"
  from request_facts [OF assms(6) t] obtain col' where
    bound: "map_of columns (reagent t) = Some col'"
    and rows': "contributing (reset_index seg) columns t
             = filter (\<lambda>row. snd row col' = Num (volume t)) (df_rows (reset_index seg))"
    and w: "wells t = map (\<lambda>row. get_well_positions seg ! fst row)
                        (contributing (reset_index seg) columns t)"
    by blast
  from bound r assms(3) have "col' = col"
    by simp
  note rows = rows' [unfolded this]
  show "get_well_positions seg ! i \<notin> set (wells t)"
  proof
    assume "get_well_positions seg ! i \<in> set (wells t)"
    then obtain row where row: "row \<in> set (df_rows (reset_index seg))"
        and val: "snd row col = Num (volume t)"
        and same: "get_well_positions seg ! fst row = get_well_positions seg ! i"
      unfolding w rows by auto
    from row obtain j where j: "j < len seg" "row = (j, snd (df_rows seg ! j))"
      by (rule reset_index_rows)
    from same j have "get_well_positions seg ! j = get_well_positions seg ! i"
      by simp
    with dist j(1) assms(4) have "j = i"
      by (simp add: nth_eq_iff_index_eq len)
    with val j(2) assms(5) show False
      by simp
  qed
qed

theorem missing_value_excluded_witness:
  "snd (df_rows example_segment ! 3) ''Gly_2.4M'' = NaN
   \<and> group_by_reagent_and_volume (reset_index example_segment) example_columns
       (get_well_positions example_segment) = Inr example_transfers
   \<and> reagent (example_transfers ! 2) = ''glycine''
   \<and> get_well_positions example_segment ! 3 \<notin> set (wells (example_transfers ! 2))
   \<and> length (get_well_positions example_segment) = 4
   \<and> get_well_positions example_segment ! 3 = Str (grid_position 3)"
proof -
  have cols: "position_cols example_segment = []"
    by (simp add: position_cols_def example_segment_def any_in_lower_def lower_def lower_char_def)
  have small: "len example_segment \<le> 28" and i: "3 < len example_segment"
    and n: "len example_segment = 4"
    by (simp_all add: len_def example_segment_def)
  have bound: "map_of example_columns ''glycine'' = Some ''Gly_2.4M''"
    by (simp add: example_columns_def)
  have missing: "snd (df_rows example_segment ! 3) ''Gly_2.4M'' = NaN"
    by (simp add: example_segment_def mk_row_def)
  have member: "example_transfers ! 2 \<in> set example_transfers"
    and glycine: "reagent (example_transfers ! 2) = ''glycine''"
    by (simp_all add: example_transfers_def)
  note excl = missing_value_excluded [OF cols small bound i missing example_run, of 1]
  from excl [THEN conjunct1, rule_format, OF member glycine]
    excl [THEN conjunct2, THEN conjunct1] excl [THEN conjunct2, THEN conjunct2, THEN conjunct1]
    missing example_run glycine n
  show ?thesis
    by simp
qed

section \<open>Properties of the Instrument Router\<close>

text \<open>
  C5. \<^verbatim>\<open>select_pipette\<close> is a total function of the volume alone, with no exception: every
  volume of at most 20 gets the low-volume pipette (\<^verbatim>\<open>pipette_right\<close>, the p20), every volume
  above 20 the high-volume pipette (\<^verbatim>\<open>pipette_left\<close>, the p300); the volumes 20 and 5 route
  low and 20.0001 routes high.
\<close>

theorem select_pipette_threshold:
  "(vol \<le> 20 \<longrightarrow> select_pipette vol = (''pipette_right'', ''p20_single_gen2''))
   \<and> (20 < vol \<longrightarrow> select_pipette vol = (''pipette_left'', ''p300_single_gen2''))
   \<and> select_pipette 20 = (''pipette_right'', ''p20_single_gen2'')
   \<and> select_pipette 20.0001 = (''pipette_left'', ''p300_single_gen2'')
   \<and> select_pipette 5 = (''pipette_right'', ''p20_single_gen2'')"
  by (simp add: select_pipette_def)

theorem select_pipette_threshold_witness:
  "select_pipette 12 = (''pipette_right'', ''p20_single_gen2'')
   \<and> select_pipette 250 = (''pipette_left'', ''p300_single_gen2'')"
  using select_pipette_threshold [of 12] select_pipette_threshold [of 250] by simp

section \<open>Properties of the Row Validator\<close>

lemma find_filter_case:
  "(case filter P xs of [] \<Rightarrow> a | x # rest \<Rightarrow> b x) = (case find P xs of None \<Rightarrow> a | Some x \<Rightarrow> b x)"
  by (induction xs) simp_all

lemma collect_gt_zero:
  "collect gt_zero cs = (if list_ex is_text cs then Inl TypeError else Inr (map is_positive cs))"
proof (induction cs)
  case Nil
  then show ?case by simp
next
  case (Cons c cs)
  then show ?case by (cases c) simp_all
qed

lemma filter_by_mask: "map fst (filter snd (zip xs (map f xs))) = filter f xs"
  by (induction xs) simp_all

lemma water_filter:
  "filter (\<lambda>col. str_in ''water'' (lower col)) cols = filter (name_matches [''water'']) cols"
proof -
  have "name_matches [''water''] = (\<lambda>col. str_in ''water'' (lower col))"
    by (rule ext) (simp add: name_matches_def str_in_iff)
  then show ?thesis by simp
qed

text \<open>
  C6, as the code has it. The water column is the first column whose lowercased name
  contains \<^verbatim>\<open>water\<close>. With no such column, \<^verbatim>\<open>filter_valid_wells\<close> returns the table unchanged
  and prints the warning, and nothing else. With a water column that holds numbers and
  missing values only, it returns exactly the rows whose water value is a number above
  zero, in their original order and with their labels, and prints the two counts. With a
  text in the water column the comparison with zero raises \<^verbatim>\<open>TypeError\<close>: this is where the
  claim as stated, for every table, fails.
\<close>

theorem filter_valid_wells_numeric:
  "filter_valid_wells df =
     (case find (name_matches [''water'']) (df_columns df) of
        None \<Rightarrow> Inr ([Warning_No_Water], df)
      | Some water_col \<Rightarrow>
          (let kept = filter (\<lambda>r. is_positive (snd r water_col)) (df_rows df) in
           if list_ex is_text (column_values df water_col) then Inl TypeError
           else Inr ([Filtered_Wells (len df - length kept), Remaining_Wells (length kept)],
                     df\<lparr>df_rows := kept\<rparr>)))"
proof (cases "find (name_matches [''water'']) (df_columns df)")
  case None
  then show ?thesis
    unfolding filter_valid_wells_def water_filter find_filter_case by simp
next
  case (Some water_col)
  have "boolean_index df (map is_positive (column_values df water_col))
          = df\<lparr>df_rows := filter (\<lambda>r. is_positive (snd r water_col)) (df_rows df)\<rparr>"
    using filter_by_mask [of "df_rows df" "\<lambda>r. is_positive (snd r water_col)"]
    by (simp add: boolean_index_def column_values_def comp_def)
  with Some show ?thesis
    unfolding filter_valid_wells_def water_filter find_filter_case
    by (simp add: collect_gt_zero Let_def len_def)
qed

theorem filter_valid_wells_numeric_witness:
  "filter_valid_wells
     \<lparr>df_columns = [''Gly_2.4M'', ''Water''],
      df_rows = [mk_row 0 [(''Gly_2.4M'', Num 5), (''Water'', Num 5)],
                 mk_row 1 [(''Gly_2.4M'', Num 10), (''Water'', Num 0)],
                 mk_row 2 [(''Gly_2.4M'', Num 5)],
                 mk_row 3 [(''Gly_2.4M'', Num 5), (''Water'', Num (-1))],
                 mk_row 4 [(''Gly_2.4M'', Num 10), (''Water'', Num 2.5)]]\<rparr>
   = Inr ([Filtered_Wells 3, Remaining_Wells 2],
          \<lparr>df_columns = [''Gly_2.4M'', ''Water''],
           df_rows = [mk_row 0 [(''Gly_2.4M'', Num 5), (''Water'', Num 5)],
                      mk_row 4 [(''Gly_2.4M'', Num 10), (''Water'', Num 2.5)]]\<rparr>)
   \<and> filter_valid_wells \<lparr>df_columns = [''Gly_2.4M''], df_rows = [mk_row 0 [(''Gly_2.4M'', Num 5)]]\<rparr>
     = Inr ([Warning_No_Water],
            \<lparr>df_columns = [''Gly_2.4M''], df_rows = [mk_row 0 [(''Gly_2.4M'', Num 5)]]\<rparr>)"
proof -
  have m1: "\<not> name_matches [''water''] ''Gly_2.4M''" and m2: "name_matches [''water''] ''Water''"
    by (simp_all add: any_in_lower_iff [symmetric] any_in_lower_def lower_def lower_char_def)
  show ?thesis
    using filter_valid_wells_numeric
            [of "\<lparr>df_columns = [''Gly_2.4M'', ''Water''],
                  df_rows = [mk_row 0 [(''Gly_2.4M'', Num 5), (''Water'', Num 5)],
                             mk_row 1 [(''Gly_2.4M'', Num 10), (''Water'', Num 0)],
                             mk_row 2 [(''Gly_2.4M'', Num 5)],
                             mk_row 3 [(''Gly_2.4M'', Num 5), (''Water'', Num (-1))],
                             mk_row 4 [(''Gly_2.4M'', Num 10), (''Water'', Num 2.5)]]\<rparr>"]
          filter_valid_wells_numeric
            [of "\<lparr>df_columns = [''Gly_2.4M''], df_rows = [mk_row 0 [(''Gly_2.4M'', Num 5)]]\<rparr>"]
    by (simp add: m1 m2 column_values_def mk_row_def len_def)
qed

theorem filter_valid_wells_text_counterexample:
  "name_matches [''water''] ''Water''
   \<and> filter_valid_wells
       \<lparr>df_columns = [''Water''],
        df_rows = [mk_row 0 [(''Water'', Num 5)], mk_row 1 [(''Water'', Str ''5 uL'')]]\<rparr>
     = Inl TypeError"
proof -
  have "name_matches [''water''] ''Water''"
    by (simp add: any_in_lower_iff [symmetric] any_in_lower_def lower_def lower_char_def)
  moreover have "filter_valid_wells
       \<lparr>df_columns = [''Water''],
        df_rows = [mk_row 0 [(''Water'', Num 5)], mk_row 1 [(''Water'', Str ''5 uL'')]]\<rparr>
     = Inl TypeError"
    by (simp add: filter_valid_wells_def lower_def lower_char_def column_values_def mk_row_def)
  ultimately show ?thesis by simp
qed

section \<open>Properties of the Column Classifier\<close>

lemma map_of_dict_set: "map_of (dict_set d k v) = (map_of d)(k \<mapsto> v)"
  by (induction d k v rule: dict_set.induct) auto

lemma map_of_identify_loop:
  "distinct (map fst ps) \<Longrightarrow>
   map_of (identify_loop ps cols acc) k =
     (case map_of ps k of
        None \<Rightarrow> map_of acc k
      | Some toks \<Rightarrow> (case first_match toks cols of None \<Rightarrow> map_of acc k | Some c \<Rightarrow> Some c))"
proof (induction ps arbitrary: acc)
  case Nil
  then show ?case by simp
next
  case (Cons p ps)
  obtain liquid toks where p: "p = (liquid, toks)" by (cases p)
  from Cons.prems p have fresh: "map_of ps liquid = None" and d: "distinct (map fst ps)"
    by (auto simp: map_of_eq_None_iff)
  show ?case
  proof (cases "first_match toks cols")
    case None
    with Cons.IH [OF d] p fresh show ?thesis by auto
  next
    case (Some c)
    with Cons.IH [OF d, of "dict_set acc liquid c"] p fresh show ?thesis
      by (auto simp: map_of_dict_set split: option.splits)
  qed
qed

text \<open>
  C8. For each reagent of the pattern table, \<^verbatim>\<open>identify_columns\<close> binds the reagent to the
  first column, in the table's column order, whose lowercased name contains one of the
  reagent's tokens; a reagent with no such column has no binding, and so has every name
  that is not a reagent. The function raises nothing.
\<close>

theorem identify_columns_first_match:
  "(\<forall>(liquid, toks) \<in> set patterns.
      map_of (snd (identify_columns df)) liquid = find (name_matches toks) (df_columns df))
   \<and> (\<forall>k. k \<notin> fst ` set patterns \<longrightarrow> map_of (snd (identify_columns df)) k = None)"
proof -
  have d: "distinct (map fst patterns)"
    by (simp add: patterns_def)
  have eq: "map_of (snd (identify_columns df)) k =
     (case map_of patterns k of
        None \<Rightarrow> None
      | Some toks \<Rightarrow> find (name_matches toks) (df_columns df))" for k
    using map_of_identify_loop [OF d, of "df_columns df" "[]" k]
    by (simp add: identify_columns_def Let_def first_match_find split: option.splits)
  show ?thesis
  proof (intro conjI ballI allI impI)
    fix p assume "p \<in> set patterns"
    then have "map_of patterns (fst p) = Some (snd p)"
      using d by simp
    then show "case p of (liquid, toks) \<Rightarrow>
         map_of (snd (identify_columns df)) liquid = find (name_matches toks) (df_columns df)"
      by (cases p) (simp add: eq)
  next
    fix k assume "k \<notin> fst ` set patterns"
    then have "map_of patterns k = None"
      by (simp add: map_of_eq_None_iff)
    then show "map_of (snd (identify_columns df)) k = None"
      by (simp add: eq)
  qed
qed

theorem identify_columns_first_match_witness:
  "map_of (snd (identify_columns
      \<lparr>df_columns = [''Well'', ''Salt [mM]'', ''Gly_2.4M'', ''NaCl_5M'', ''Water''], df_rows = []\<rparr>))
     ''nacl'' = Some ''Salt [mM]''
   \<and> map_of (snd (identify_columns
      \<lparr>df_columns = [''Well'', ''Salt [mM]'', ''Gly_2.4M'', ''NaCl_5M'', ''Water''], df_rows = []\<rparr>))
     ''tris'' = None"
proof -
  let ?df = "\<lparr>df_columns = [''Well'', ''Salt [mM]'', ''Gly_2.4M'', ''NaCl_5M'', ''Water''], df_rows = []\<rparr>"
  have a: "(''nacl'', [''nacl'', ''5m'', ''salt'']) \<in> set patterns"
    and b: "(''tris'', [''tris'', ''buffer'', ''0.5m'']) \<in> set patterns"
    by (simp_all add: patterns_def)
  have "map_of (snd (identify_columns ?df)) ''nacl''
          = find (name_matches [''nacl'', ''5m'', ''salt'']) (df_columns ?df)"
    and "map_of (snd (identify_columns ?df)) ''tris''
          = find (name_matches [''tris'', ''buffer'', ''0.5m'']) (df_columns ?df)"
    using identify_columns_first_match [of ?df] a b by blast+
  then show ?thesis
    by (simp add: any_in_lower_iff [symmetric] any_in_lower_def lower_def lower_char_def)
qed

section \<open>Properties of the whole run: empty input\<close>

lemma segment_data_empty:
  assumes "df_rows df = []"
  shows "segment_data df 28 = Inr ([], [])"
proof -
  have "len df = 0" using assms by (simp add: len_def)
  then show ?thesis
    by (simp add: segment_data_def py_range.simps)
qed

lemma generate_full_protocol_empty:
  assumes "filter_valid_wells df = Inr (out1, validated)" and "df_rows validated = []"
  shows "generate_full_protocol e (Some df)
           = Inr \<lparr>printed = Processing_CSV # [CSV_Loaded (len df), CSV_Columns (df_columns df)]
                     @ out1 @ fst (identify_columns validated) @ [],
                 writes = [], returned = Some []\<rparr>"
  using assms
  by (simp add: generate_full_protocol_def read_csv_data_def segment_data_empty
      enumerate_eq_zip split: prod.splits)

lemma generate_full_protocol_unreadable:
  "generate_full_protocol e None
     = Inr \<lparr>printed = [Processing_CSV, CSV_Read_Error], writes = [], returned = None\<rparr>"
  by (simp add: generate_full_protocol_def read_csv_data_def)

lemma example_empty_filter:
  "filter_valid_wells example_empty = Inr ([Filtered_Wells 0, Remaining_Wells 0], example_empty)"
  by (simp add: filter_valid_wells_def example_empty_def any_in_lower_def lower_def
      lower_char_def column_values_def boolean_index_def len_def)

text \<open>
  C7. When the row validator leaves no row, the batcher makes no segment, and
  \<^verbatim>\<open>generate_full_protocol\<close> writes no program and returns the empty list, without an
  exception; for a table that could not be read it returns \<^verbatim>\<open>None\<close>, another value. Its
  caller \<^verbatim>\<open>main\<close> tests \<^verbatim>\<open>if generated_files:\<close>, which both values fail: for the empty
  table as for the unreadable one, the last line it prints is the failure message.
\<close>

theorem empty_input_outcome:
  assumes "filter_valid_wells df = Inr (out1, validated)" and "df_rows validated = []"
  shows "(\<exists>out3. segment_data validated 28 = Inr (out3, []))
    \<and> (\<exists>res. generate_full_protocol e (Some df) = Inr res
           \<and> writes res = [] \<and> returned res = Some [])
    \<and> (\<exists>res. generate_full_protocol e None = Inr res
           \<and> writes res = [] \<and> returned res = None)
    \<and> (\<exists>res. main e True (Some df) = Inr res
           \<and> writes res = [] \<and> last (printed res) = Failed_To_Generate)
    \<and> (\<exists>res. main e True None = Inr res
           \<and> writes res = [] \<and> last (printed res) = Failed_To_Generate)"
proof (intro conjI)
  show "\<exists>out3. segment_data validated 28 = Inr (out3, [])"
    using segment_data_empty [OF assms(2)] by blast
  show "\<exists>res. generate_full_protocol e (Some df) = Inr res
           \<and> writes res = [] \<and> returned res = Some []"
    by (simp add: generate_full_protocol_empty [OF assms])
  show "\<exists>res. generate_full_protocol e None = Inr res
           \<and> writes res = [] \<and> returned res = None"
    by (simp add: generate_full_protocol_unreadable)
  show "\<exists>res. main e True (Some df) = Inr res
           \<and> writes res = [] \<and> last (printed res) = Failed_To_Generate"
    by (simp add: main_def generate_full_protocol_empty [OF assms])
  show "\<exists>res. main e True None = Inr res
           \<and> writes res = [] \<and> last (printed res) = Failed_To_Generate"
    by (simp add: main_def generate_full_protocol_unreadable)
qed

theorem empty_input_outcome_witness:
  "filter_valid_wells example_empty = Inr ([Filtered_Wells 0, Remaining_Wells 0], example_empty)
   \<and> df_rows example_empty = []
   \<and> (\<exists>out3. segment_data example_empty 28 = Inr (out3, []))
   \<and> (\<exists>res. generate_full_protocol example_env (Some example_empty) = Inr res
          \<and> writes res = [] \<and> returned res = Some [])
   \<and> (\<exists>res. generate_full_protocol example_env None = Inr res
          \<and> writes res = [] \<and> returned res = None)
   \<and> (\<exists>res. main example_env True (Some example_empty) = Inr res
          \<and> writes res = [] \<and> last (printed res) = Failed_To_Generate)
   \<and> (\<exists>res. main example_env True None = Inr res
          \<and> writes res = [] \<and> last (printed res) = Failed_To_Generate)"
proof -
  have rows: "df_rows example_empty = []"
    by (simp add: example_empty_def)
  note outcome = empty_input_outcome [OF example_empty_filter rows, of example_env]
  show ?thesis
    by (intro conjI) (fact example_empty_filter rows outcome [THEN conjunct1]
      outcome [THEN conjunct2, THEN conjunct1]
      outcome [THEN conjunct2, THEN conjunct2, THEN conjunct1]
      outcome [THEN conjunct2, THEN conjunct2, THEN conjunct2, THEN conjunct1]
      outcome [THEN conjunct2, THEN conjunct2, THEN conjunct2, THEN conjunct2])+
qed

theorem main_empty_counterexample:
  "main example_env True (Some example_empty)
     = Inr \<lparr>printed = [Banner, Input_CSV, Output_Base, Processing_CSV, CSV_Loaded 0,
                        CSV_Columns [''Gly_2.4M'', ''Water''], Filtered_Wells 0,
                        Remaining_Wells 0,
                        Identified_Columns [(''glycine'', ''Gly_2.4M''), (''water'', ''Water'')],
                        Failed_To_Generate],
            writes = [], returned = None\<rparr>
   \<and> main example_env True None
     = Inr \<lparr>printed = [Banner, Input_CSV, Output_Base, Processing_CSV, CSV_Read_Error,
                        Failed_To_Generate],
            writes = [], returned = None\<rparr>"
proof -
  have rows: "df_rows example_empty = []"
    by (simp add: example_empty_def)
  have cols: "identify_columns example_empty
      = ([Identified_Columns [(''glycine'', ''Gly_2.4M''), (''water'', ''Water'')]],
         [(''glycine'', ''Gly_2.4M''), (''water'', ''Water'')])"
    by (simp add: identify_columns_def example_empty_def patterns_def any_in_lower_def
        lower_def lower_char_def Let_def)
  have "len example_empty = 0" "df_columns example_empty = [''Gly_2.4M'', ''Water'']"
    by (simp_all add: example_empty_def len_def)
  then show ?thesis
    by (simp add: main_def generate_full_protocol_empty [OF example_empty_filter rows]
        generate_full_protocol_unreadable cols)
qed


section \<open>Properties of the whole run: two runs\<close>

lemma segment_files_loop_steps:
  "(case segment_files_loop e columns n segs out ws gf of
      Inl err \<Rightarrow> Inl err
    | Inr (out', ws', gf') \<Rightarrow> Inr (map (\<lambda>(file_path, code, ok). steps code) ws'))
   = (case collect (\<lambda>(idx, seg). generate_protocol_steps_for_segment seg columns idx) segs of
        Inl err \<Rightarrow> Inl err
      | Inr sts \<Rightarrow> Inr (map (\<lambda>(file_path, code, ok). steps code) ws @ sts))"
proof (induction segs arbitrary: out ws gf)
  case Nil
  show ?case by simp
next
  case (Cons a segs)
  obtain idx seg where a: "a = (idx, seg)" by (cases a)
  show ?case
  proof (cases "generate_protocol_steps_for_segment seg columns idx")
    case (Inl err)
    then show ?thesis by (simp add: a Let_def)
  next
    case (Inr st)
    show ?thesis
    proof (cases "write_ok e (if 1 < n then Segment_File (idx + 1) else Output_File)")
      case True
      then show ?thesis
        using Inr by (simp add: a Let_def Cons.IH split: sum.splits)
    next
      case False
      then show ?thesis
        using Inr by (simp add: a Let_def Cons.IH split: sum.splits)
    qed
  qed
qed

lemma routed_requests_closed:
  "routed_requests (generate_full_protocol e parsed)
     = (case parsed of
          None \<Rightarrow> Inr []
        | Some df \<Rightarrow>
            (case filter_valid_wells df of
               Inl err \<Rightarrow> Inl err
             | Inr (out1, df_filtered) \<Rightarrow>
                 (case segment_data df_filtered 28 of
                    Inl err \<Rightarrow> Inl err
                  | Inr (out3, segments) \<Rightarrow>
                      collect (\<lambda>(idx, seg). generate_protocol_steps_for_segment seg
                                 (snd (identify_columns df_filtered)) idx)
                        (enumerate 0 segments))))"
proof (cases parsed)
  case None
  then show ?thesis
    by (simp add: routed_requests_def generate_full_protocol_def read_csv_data_def)
next
  case (Some df)
  show ?thesis
  proof (cases "filter_valid_wells df")
    case (Inl err)
    then show ?thesis
      by (simp add: Some routed_requests_def generate_full_protocol_def read_csv_data_def)
  next
    case (Inr p)
    obtain out1 df_filtered where p: "p = (out1, df_filtered)" by (cases p)
    obtain out2 columns where ic: "identify_columns df_filtered = (out2, columns)"
      by (cases "identify_columns df_filtered")
    show ?thesis
    proof (cases "segment_data df_filtered 28")
      case (Inl err)
      then show ?thesis
        by (simp add: Some Inr p ic routed_requests_def generate_full_protocol_def
            read_csv_data_def)
    next
      case sd: (Inr q)
      obtain out3 segments where q: "q = (out3, segments)" by (cases q)
      let ?out = "Processing_CSV # [CSV_Loaded (len df), CSV_Columns (df_columns df)]
                    @ out1 @ out2 @ out3"
      have loop: "(case segment_files_loop e columns (length segments) (enumerate 0 segments)
                          ?out [] [] of
                     Inl err \<Rightarrow> Inl err
                   | Inr (out', ws', gf') \<Rightarrow> Inr (map (\<lambda>(file_path, code, ok). steps code) ws'))
          = (case collect (\<lambda>(idx, seg). generate_protocol_steps_for_segment seg columns idx)
                    (enumerate 0 segments) of
               Inl err \<Rightarrow> Inl err
             | Inr sts \<Rightarrow> Inr sts)"
        by (simp only: segment_files_loop_steps) (simp split: sum.splits)
      have "routed_requests (generate_full_protocol e parsed)
          = (case segment_files_loop e columns (length segments) (enumerate 0 segments)
                    ?out [] [] of
               Inl err \<Rightarrow> Inl err
             | Inr (out', ws', gf') \<Rightarrow> Inr (map (\<lambda>(file_path, code, ok). steps code) ws'))"
        by (simp add: Some Inr p ic sd q routed_requests_def generate_full_protocol_def
            read_csv_data_def split: sum.splits)
      also note loop
      finally show ?thesis
        by (simp add: Some Inr p ic sd q split: sum.splits)
    qed
  qed
qed

lemma example_table_filter:
  "filter_valid_wells example_table
     = Inr ([Filtered_Wells 1, Remaining_Wells 3], example_validated)"
  by (simp add: filter_valid_wells_def example_table_def example_validated_def any_in_lower_def
      lower_def lower_char_def column_values_def boolean_index_def len_def mk_row_def Let_def)

lemma example_table_columns:
  "snd (identify_columns example_validated)
     = [(''glycine'', ''Gly_2.4M''), (''tris'', ''Tris_buffer''), (''water'', ''Water'')]"
  by (simp add: identify_columns_def example_validated_def patterns_def any_in_lower_def
      lower_def lower_char_def Let_def)

lemma example_table_segments:
  "segment_data example_validated 28
     = Inr ([Segment_Wells 1 3], [example_validated])"
proof -
  have len3: "len example_validated = 3"
    by (simp add: example_validated_def len_def)
  have range3: "py_range 0 3 28 = [0]"
    by (simp add: py_range.simps)
  have "segment_loop example_validated 28 [0] [] [] = ([Segment_Wells 1 3], [example_validated])"
    by (simp add: iloc_def Let_def example_validated_def len_def)
  then show ?thesis
    by (simp add: segment_data_def len3 range3)
qed

lemma example_table_positions:
  "get_well_positions example_validated = [Str ''A1'', Str ''A2'', Str ''A3'']"
  by (simp add: get_well_positions_def position_cols_def example_validated_def any_in_lower_def
      lower_def lower_char_def grid_rows_def grid_cols_def str_nat.simps)

lemma example_table_reset:
  "reset_index example_validated =
     \<lparr>df_columns = [''Tris_buffer'', ''Gly_2.4M'', ''Water''],
      df_rows = [(0, snd (mk_row 0 [(''Tris_buffer'', Num 2), (''Gly_2.4M'', Num 5), (''Water'', Num 100)])),
                 (1, snd (mk_row 2 [(''Tris_buffer'', Num 0), (''Gly_2.4M'', Num 5), (''Water'', Num 50)])),
                 (2, snd (mk_row 3 [(''Tris_buffer'', Num 30), (''Water'', Num 20)]))]\<rparr>"
  by (simp add: reset_index_def example_validated_def len_def upt_rec [of 0] upt_rec [of 1]
      upt_rec [of 2] upt_rec [of 3])

lemma example_table_steps:
  "generate_protocol_steps_for_segment example_validated
     [(''glycine'', ''Gly_2.4M''), (''tris'', ''Tris_buffer''), (''water'', ''Water'')] 0
     = Inr example_steps"
  unfolding generate_protocol_steps_for_segment_def example_table_positions example_table_reset
  by (simp add: group_by_reagent_and_volume_def reagent_order_def LIQUID_DEFINITIONS_def
      group_keys_def column_values_def group_index_def py_index_def mk_row_def
      generate_transfer_step_def select_pipette_def example_steps_def Let_def)

lemma example_table_run:
  "routed_requests (generate_full_protocol e (Some example_table)) = Inr [example_steps]"
  by (simp add: routed_requests_closed example_table_filter example_table_segments
      example_table_columns enumerate_eq_zip example_table_steps)

text \<open>
  C9. Two runs on the same input give the same routed transfer requests, in the same
  order, or end with the same exception: the steps of the programs handed to the writer
  are a function of the table read, whatever the clock shows and whether or not a write
  succeeds. Every stage is a function of its arguments: the dictionaries are read in
  insertion order, the reagents in the order of \<^verbatim>\<open>reagent_order\<close>, the groups in ascending
  order of their key. In particular two tables with the same column names, in the same
  order, get the same binding from \<^verbatim>\<open>identify_columns\<close>.
\<close>

theorem pipeline_deterministic:
  "routed_requests (generate_full_protocol e1 parsed)
     = routed_requests (generate_full_protocol e2 parsed)
   \<and> (df_columns df1 = df_columns df2 \<longrightarrow> identify_columns df1 = identify_columns df2)"
  by (simp add: routed_requests_closed identify_columns_def)


theorem pipeline_deterministic_witness:
  "routed_requests (generate_full_protocol example_env (Some example_table)) = Inr [example_steps]
   \<and> routed_requests (generate_full_protocol example_env' (Some example_table)) = Inr [example_steps]
   \<and> df_columns example_table = df_columns example_validated
   \<and> identify_columns example_table = identify_columns example_validated"
proof -
  have cols: "df_columns example_table = df_columns example_validated"
    by (simp add: example_table_def example_validated_def)
  note two = pipeline_deterministic [of example_env "Some example_table" example_env'
      example_table example_validated]
  have "routed_requests (generate_full_protocol example_env' (Some example_table))
          = Inr [example_steps]"
    using two [THEN conjunct1] example_table_run [of example_env] by simp
  moreover have "identify_columns example_table = identify_columns example_validated"
    using two [THEN conjunct2] cols by blast
  ultimately show ?thesis
    using example_table_run [of example_env] cols by simp
qed


end
